theory Spec2Isabelle
  imports Complex_Main "HOL-Library.Char_ord" "HOL-Library.List_Lexorder"
begin

section \<open>Retry with exponential backoff (src/utils/api\_retry.py)\<close>

text \<open>
  The exceptions the wrapper inspects. The classes are those of the openai package, which
  the module imports: \<open>RateLimitError\<close> and \<open>InternalServerError\<close> are subclasses of
  \<open>APIStatusError\<close>; \<open>OtherStatusError\<close> stands for \<open>APIStatusError\<close> itself and its
  remaining subclasses (\<open>BadRequestError\<close>, \<open>NotFoundError\<close>, ...); \<open>APITimeoutError\<close> is a
  subclass of \<open>APIConnectionError\<close>; \<open>OtherException\<close> is every exception outside
  that hierarchy. An exception carries the attribute \<open>status_code\<close> (absent or \<open>None\<close>:
  \<open>None\<close>) and the status code of its \<open>response\<close> attribute, when it has one.
\<close>

datatype exc_class =
  RateLimitError | InternalServerError | OtherStatusError
| APITimeoutError | APIConnectionError | OtherException

datatype exc_base = APIStatusError_base | APITimeoutError_base | APIConnectionError_base
  | RateLimitError_base

record exc =
  exc_cls :: exc_class
  status_code :: "int option"
  response_status_code :: "int option"

fun issubclass :: "exc_class \<Rightarrow> exc_base \<Rightarrow> bool" where
  "issubclass RateLimitError b = (b = RateLimitError_base \<or> b = APIStatusError_base)"
| "issubclass InternalServerError b = (b = APIStatusError_base)"
| "issubclass OtherStatusError b = (b = APIStatusError_base)"
| "issubclass APITimeoutError b = (b = APITimeoutError_base \<or> b = APIConnectionError_base)"
| "issubclass APIConnectionError b = (b = APIConnectionError_base)"
| "issubclass OtherException b = False"

definition isinstance :: "exc \<Rightarrow> exc_base list \<Rightarrow> bool" where
  "isinstance e bs = list_ex (issubclass (exc_cls e)) bs"

text \<open>
  The module constants, as they are when the import of the openai classes succeeds (in the
  \<open>ImportError\<close> branch the tuple is empty and none of the classes above exists).
\<close>

definition RETRYABLE_EXCEPTIONS :: "exc_base list" where
  "RETRYABLE_EXCEPTIONS =
     [RateLimitError_base, APIStatusError_base, APITimeoutError_base, APIConnectionError_base]"

definition RETRYABLE_STATUS_CODES :: "int list" where
  "RETRYABLE_STATUS_CODES = [429, 500, 502, 503]"

definition status_code_of :: "exc \<Rightarrow> int option" where
  "status_code_of error =
     (case status_code error of
        Some code \<Rightarrow> Some code
      | None \<Rightarrow> response_status_code error)"

definition is_retryable :: "exc \<Rightarrow> bool" where
  "is_retryable error =
     (if RETRYABLE_EXCEPTIONS = [] \<or> \<not> isinstance error RETRYABLE_EXCEPTIONS then False
      else if isinstance error [APIStatusError_base] then
        (case status_code_of error of
           None \<Rightarrow> False
         | Some code \<Rightarrow> code \<in> set RETRYABLE_STATUS_CODES)
      else True)"

text \<open>
  \<open>with_retry\<close>. The callable is stateful, so it is given as the sequence of its outcomes:
  \<open>callable_fn n\<close> is what the call number \<open>n\<close> (from 0) does, \<open>Inl e\<close> when it raises
  \<open>e\<close>. The trace records every \<open>time.sleep\<close> and counts the calls made. Delays are
  Python floats, modelled as exact rationals. \<open>time.sleep\<close> raises \<open>ValueError\<close> on a
  negative argument, and the final \<open>raise last_error\<close> raises \<open>TypeError\<close> when no attempt
  was made (\<open>last_error\<close> still \<open>None\<close>).
\<close>

datatype raised = CallError exc | ValueError | TypeError

datatype 'a outcome = Returned 'a | Raised raised

record retry_trace =
  sleeps :: "rat list"
  attempts :: nat

fun retry_loop ::
  "(nat \<Rightarrow> exc + 'a) \<Rightarrow> int \<Rightarrow> rat \<Rightarrow> rat \<Rightarrow> int list \<Rightarrow> rat \<Rightarrow> exc option \<Rightarrow> retry_trace
     \<Rightarrow> 'a outcome \<times> retry_trace" where
  "retry_loop callable_fn max_retries max_delay exponential_base [] delay last_error tr =
     (case last_error of
        None \<Rightarrow> (Raised TypeError, tr)
      | Some e \<Rightarrow> (Raised (CallError e), tr))"
| "retry_loop callable_fn max_retries max_delay exponential_base (attempt # rest) delay last_error tr =
     (let tr1 = tr\<lparr>attempts := attempts tr + 1\<rparr> in
      case callable_fn (attempts tr) of
        Inr v \<Rightarrow> (Returned v, tr1)
      | Inl e \<Rightarrow>
          if attempt = max_retries \<or> \<not> is_retryable e then (Raised (CallError e), tr1)
          else if delay < 0 then (Raised ValueError, tr1)
          else retry_loop callable_fn max_retries max_delay exponential_base rest
                 (min (delay * exponential_base) max_delay) (Some e)
                 (tr1\<lparr>sleeps := sleeps tr1 @ [delay]\<rparr>))"

definition with_retry ::
  "(nat \<Rightarrow> exc + 'a) \<Rightarrow> int \<Rightarrow> rat \<Rightarrow> rat \<Rightarrow> rat \<Rightarrow> 'a outcome \<times> retry_trace" where
  "with_retry callable_fn max_retries initial_delay max_delay exponential_base =
     retry_loop callable_fn max_retries max_delay exponential_base [0..max_retries]
       initial_delay None \<lparr>sleeps = [], attempts = 0\<rparr>"

text \<open>
  The backoff schedule in the words of the specification: the delay starts at
  \<open>initial_delay\<close>, is multiplied by \<open>exponential_base\<close> after each retry and is capped at
  \<open>max_delay\<close>. \<open>spec_backoff d b m n\<close> is the list of the first \<open>n\<close> delays; the cap
  applies to each product, not to the starting delay \<open>d\<close>.
\<close>

primrec spec_backoff :: "rat \<Rightarrow> rat \<Rightarrow> rat \<Rightarrow> nat \<Rightarrow> rat list" where
  "spec_backoff d b m 0 = []"
| "spec_backoff d b m (Suc n) = d # spec_backoff (min (d * b) m) b m n"

text \<open>
  The classification in the words of the specification: retryable is a rate-limit error, a
  5xx server error, a timeout or a connection failure.
\<close>

definition spec_retryable :: "exc \<Rightarrow> bool" where
  "spec_retryable e =
     (exc_cls e = RateLimitError
      \<or> (issubclass (exc_cls e) APIStatusError_base
          \<and> (case status_code_of e of None \<Rightarrow> False | Some c \<Rightarrow> 500 \<le> c \<and> c < 600))
      \<or> exc_cls e = APITimeoutError
      \<or> exc_cls e = APIConnectionError)"

text \<open>An \<open>APIStatusError\<close> of class \<open>c\<close> built from a response with status \<open>n\<close>.\<close>

definition status_error :: "exc_class \<Rightarrow> int \<Rightarrow> exc" where
  "status_error c n = \<lparr>exc_cls = c, status_code = Some n, response_status_code = Some n\<rparr>"

section \<open>Sliding-window chunking (src/ingest/chunker.py)\<close>

text \<open>
  A chunk is the dictionary the chunker builds; \<open>similarity_score\<close> is the key the vector
  store adds to its copy of a chunk (\<open>None\<close>: the key is absent). Scores are floats,
  modelled as rationals.
\<close>

record chunk =
  chunk_id :: string
  source_id :: string
  text' :: string
  token_count :: nat
  start_char :: nat
  end_char :: nat
  similarity_score :: "rat option"

text \<open>
  The tokenizer (tiktoken's \<open>cl100k_base\<close>) is external: the chunker is given its two
  functions.
\<close>

record 'tok tokenizer =
  encode :: "string \<Rightarrow> 'tok list"
  decode :: "'tok list \<Rightarrow> string"

record 'tok TextChunker =
  chunk_size :: int
  overlap :: int
  tokenizer :: "'tok tokenizer"

datatype chunker_error = ConfigurationError

text \<open>
  The constructor stores its arguments. It has no check and no \<open>raise\<close>, so it always
  returns the object.
\<close>

definition TextChunker_init ::
  "int \<Rightarrow> int \<Rightarrow> 'tok tokenizer \<Rightarrow> chunker_error + 'tok TextChunker" where
  "TextChunker_init cs ov tk = Inr \<lparr>chunk_size = cs, overlap = ov, tokenizer = tk\<rparr>"

text \<open>
  Python's slice \<open>xs[i:j]\<close>: a negative bound counts from the end, and both bounds are
  clipped to the list.
\<close>

definition slice_bound :: "nat \<Rightarrow> int \<Rightarrow> nat" where
  "slice_bound n i = (if i < 0 then nat (max 0 (int n + i)) else min n (nat i))"

definition py_slice :: "'a list \<Rightarrow> int \<Rightarrow> int \<Rightarrow> 'a list" where
  "py_slice xs i j =
     (let lo = slice_bound (length xs) i; hi = slice_bound (length xs) j
      in take (hi - lo) (drop lo xs))"

text \<open>The format \<open>{chunk_num:03d}\<close>: decimal digits, padded with zeros to width 3.\<close>

fun str_nat :: "nat \<Rightarrow> string" where
  "str_nat n =
     (if n < 10 then [''0123456789'' ! n]
      else str_nat (n div 10) @ [''0123456789'' ! (n mod 10)])"

definition format_03d :: "nat \<Rightarrow> string" where
  "format_03d n = replicate (3 - length (str_nat n)) (CHR ''0'') @ str_nat n"

text \<open>
  The body of the loop: \<open>window_end\<close> is the variable \<open>end\<close>, \<open>chunk_tokens\<close> the
  variable of that name, and \<open>make_chunk\<close> the dictionary appended for the window that
  starts at \<open>start\<close>.
\<close>

definition window_end :: "'tok TextChunker \<Rightarrow> 'tok list \<Rightarrow> int \<Rightarrow> int" where
  "window_end c tokens start = min (start + chunk_size c) (int (length tokens))"

definition chunk_tokens :: "'tok TextChunker \<Rightarrow> 'tok list \<Rightarrow> int \<Rightarrow> 'tok list" where
  "chunk_tokens c tokens start = py_slice tokens start (window_end c tokens start)"

definition make_chunk :: "'tok TextChunker \<Rightarrow> 'tok list \<Rightarrow> string \<Rightarrow> int \<Rightarrow> nat \<Rightarrow> chunk" where
  "make_chunk c tokens sid start chunk_num =
     \<lparr>chunk_id = sid @ ''_chunk_'' @ format_03d chunk_num,
      source_id = sid,
      text' = decode (tokenizer c) (chunk_tokens c tokens start),
      token_count = length (chunk_tokens c tokens start),
      start_char = length (decode (tokenizer c) (py_slice tokens 0 start)),
      end_char = length (decode (tokenizer c) (py_slice tokens 0 (window_end c tokens start))),
      similarity_score = None\<rparr>"

text \<open>
  The \<open>while\<close> loop. It may run forever, so it is a partial function: \<open>None\<close> means that
  the loop does not return. A returned value is always the list of chunks (\<open>Inr\<close>):
  \<open>chunk_text\<close> contains no \<open>raise\<close>.
\<close>

partial_function (option) chunk_loop ::
  "'tok TextChunker \<Rightarrow> 'tok list \<Rightarrow> string \<Rightarrow> int \<Rightarrow> nat \<Rightarrow> chunk list
     \<Rightarrow> (chunker_error + chunk list) option" where
  "chunk_loop c tokens sid start chunk_num chunks =
     (if start < int (length tokens) then
        chunk_loop c tokens sid (start + (chunk_size c - overlap c)) (chunk_num + 1)
          (chunks @ [make_chunk c tokens sid start chunk_num])
      else Some (Inr chunks))"

declare chunk_loop.simps [code]

definition chunk_text ::
  "'tok TextChunker \<Rightarrow> string \<Rightarrow> string \<Rightarrow> (chunker_error + chunk list) option" where
  "chunk_text c text sid = chunk_loop c (encode (tokenizer c) text) sid 0 1 []"

text \<open>
  A tokenizer whose tokens are the characters of the text, to run the chunker on concrete
  inputs.
\<close>

definition char_tokenizer :: "char tokenizer" where
  "char_tokenizer = \<lparr>encode = (\<lambda>s. s), decode = (\<lambda>ts. ts)\<rparr>"

text \<open>
  The window starts in the words of the specification: with the stride
  \<open>s = chunk_size - overlap\<close>, the arithmetic sequence \<open>0, s, 2s, ...\<close> of the starts
  below the token count (there are \<open>\<lceil>length tokens / s\<rceil>\<close> of them).
\<close>

definition stride :: "'tok TextChunker \<Rightarrow> int" where
  "stride c = chunk_size c - overlap c"

definition spec_window_starts :: "'tok TextChunker \<Rightarrow> 'tok list \<Rightarrow> int list" where
  "spec_window_starts c tokens =
     map (\<lambda>i. int i * stride c)
       [0..<nat ((int (length tokens) + stride c - 1) div stride c)]"

text \<open>
  The overlap property in the words of the specification, for the token windows \<open>ws\<close> of
  the chunks in order: each chunk shares exactly \<open>ov\<close> tokens with the next one, its last
  \<open>ov\<close> tokens being the first \<open>ov\<close> tokens of the next; only the final chunk may be
  shorter, so the pair that ends with the final chunk is exempt.
\<close>

definition spec_overlap_exact :: "'tok list list \<Rightarrow> nat \<Rightarrow> bool" where
  "spec_overlap_exact ws ov =
     list_all (\<lambda>i. ov \<le> length (ws ! i) \<and> ov \<le> length (ws ! Suc i)
                  \<and> drop (length (ws ! i) - ov) (ws ! i) = take ov (ws ! Suc i))
       [0..<length ws - 2]"

section \<open>Vector store (src/rag/vector\_store.py)\<close>

text \<open>
  The FAISS index is external. \<open>IndexFlatIP\<close> keeps the added vectors in insertion order
  (\<open>ntotal\<close> of them, each of width \<open>d\<close>) and searches them exhaustively by inner
  product. Vector components and scores are floats, modelled as rationals.
\<close>

record faiss_index =
  d :: nat
  xb :: "rat list list"

definition ntotal :: "faiss_index \<Rightarrow> nat" where
  "ntotal idx = length (xb idx)"

datatype vs_error = IndexError | AssertionError

definition inner_product :: "rat list \<Rightarrow> rat list \<Rightarrow> rat" where
  "inner_product x y = sum_list (map (\<lambda>(a, b). a * b) (zip x y))"

text \<open>
  The search of the library for one query vector, from its documentation: it returns \<open>k\<close>
  distances and \<open>k\<close> labels, best first; the labels are positions in insertion order; when
  the index holds fewer than \<open>k\<close> vectors, the missing results have the label \<open>-1\<close> and, for
  the inner-product metric, the lowest float as distance. The Python wrapper asserts that the
  query has the width of the index and that \<open>k\<close> is positive. Equal scores are ranked here
  in insertion order.
\<close>

definition FLT_LOWEST :: rat where
  "FLT_LOWEST = - 340282346638528859811704183484516925440"

definition faiss_search :: "faiss_index \<Rightarrow> rat list \<Rightarrow> int \<Rightarrow> vs_error + (rat list \<times> int list)" where
  "faiss_search idx q k =
     (if length q \<noteq> d idx \<or> k \<le> 0 then Inl AssertionError
      else
        let scored = map (\<lambda>i. (inner_product q (xb idx ! i), int i)) [0..<ntotal idx];
            top = take (nat k) (sort_key (\<lambda>(s, i). - s) scored);
            padded = top @ replicate (nat k - length top) (FLT_LOWEST, - 1)
        in Inr (map fst padded, map snd padded))"

record VectorStore =
  dimension :: nat
  index :: faiss_index
  chunk_metadata :: "chunk list"

definition VectorStore_init :: "nat \<Rightarrow> VectorStore" where
  "VectorStore_init n = \<lparr>dimension = n, index = \<lparr>d = n, xb = []\<rparr>, chunk_metadata = []\<rparr>"

text \<open>
  \<open>add_chunks\<close>: the two assertions, then the vectors are appended to the index and the
  chunks to the metadata. \<open>embeddings\<close> is a two-dimensional array, given as its rows.
\<close>

definition add_chunks :: "VectorStore \<Rightarrow> chunk list \<Rightarrow> rat list list \<Rightarrow> vs_error + VectorStore" where
  "add_chunks vs chunks embeddings =
     (if length embeddings \<noteq> length chunks then Inl AssertionError
      else if list_ex (\<lambda>e. length e \<noteq> dimension vs) embeddings then Inl AssertionError
      else Inr (vs\<lparr>index := (index vs)\<lparr>xb := xb (index vs) @ embeddings\<rparr>,
                   chunk_metadata := chunk_metadata vs @ chunks\<rparr>))"

text \<open>
  List subscription \<open>xs[i]\<close> as Python evaluates it: positions \<open>0 .. len - 1\<close> read
  from the front, positions \<open>-len .. -1\<close> read from the back, every other position is
  an \<open>IndexError\<close>.
\<close>

definition py_getitem :: "'a list \<Rightarrow> int \<Rightarrow> vs_error + 'a" where
  "py_getitem xs i =
     (if 0 \<le> i \<and> i < int (length xs) then Inr (xs ! nat i)
      else if i < 0 \<and> - int (length xs) \<le> i then Inr (xs ! nat (int (length xs) + i))
      else Inl IndexError)"

text \<open>
  \<open>search\<close>: the loop over \<open>enumerate(indices[0])\<close> copies the metadata entry at each
  label and sets its \<open>similarity_score\<close> to the score at the same position.
\<close>

fun search_rows :: "chunk list \<Rightarrow> (rat \<times> int) list \<Rightarrow> vs_error + chunk list" where
  "search_rows meta [] = Inr []"
| "search_rows meta ((score, idx) # rest) =
     (case py_getitem meta idx of
        Inl e \<Rightarrow> Inl e
      | Inr chunk \<Rightarrow>
          (case search_rows meta rest of
             Inl e \<Rightarrow> Inl e
           | Inr results \<Rightarrow> Inr (chunk\<lparr>similarity_score := Some score\<rparr> # results)))"

definition search :: "VectorStore \<Rightarrow> rat list \<Rightarrow> int \<Rightarrow> vs_error + chunk list" where
  "search vs query_embedding k =
     (case faiss_search (index vs) query_embedding k of
        Inl e \<Rightarrow> Inl e
      | Inr (scores, indices) \<Rightarrow> search_rows (chunk_metadata vs) (zip scores indices))"

text \<open>
  \<open>save\<close> and \<open>load\<close>. The directory holds the two artifacts \<open>faiss.index\<close> and
  \<open>metadata.json\<close>; reading and writing them is taken to succeed. \<open>load\<close> assigns the
  three fields and has no check and no \<open>raise\<close> of its own.
\<close>

record persisted =
  faiss_file :: faiss_index
  metadata_file :: "chunk list"

definition save :: "VectorStore \<Rightarrow> persisted" where
  "save vs = \<lparr>faiss_file = index vs, metadata_file = chunk_metadata vs\<rparr>"

definition load :: "persisted \<Rightarrow> VectorStore \<Rightarrow> vs_error + VectorStore" where
  "load p vs =
     Inr (vs\<lparr>index := faiss_file p, dimension := d (faiss_file p),
              chunk_metadata := metadata_file p\<rparr>)"

text \<open>A chunk with the given id and text, for concrete stores.\<close>

definition mk_chunk :: "string \<Rightarrow> string \<Rightarrow> chunk" where
  "mk_chunk cid body =
     \<lparr>chunk_id = cid, source_id = ''doc'', text' = body, token_count = 1,
      start_char = 0, end_char = 1, similarity_score = None\<rparr>"

section \<open>Citations (src/rag/structured\_citations.py, src/eval/metrics.py)\<close>

subsection \<open>The regular expressions\<close>

text \<open>
  The three patterns of the source are sequences of literal characters and of greedy
  repetitions of a character class (\<open>+\<close>: at least once, \<open>*\<close>: any number of times), some
  of them captured as a group. \<open>Rep p lo cap\<close> is the repetition of the class \<open>p\<close> at
  least \<open>lo\<close> times, captured when \<open>cap\<close> holds. \<open>re_match\<close> matches at the start of the
  string, as the backtracking matcher of Python's \<open>re\<close> does: a repetition takes the longest
  run first and gives characters back one at a time while the rest of the pattern fails.
  The result is the list of groups and the unmatched rest of the string. A character is a
  code point below 256.
\<close>

datatype re_item = Lit char | Rep "char \<Rightarrow> bool" nat bool

primrec first_some :: "'a option list \<Rightarrow> 'a option" where
  "first_some [] = None"
| "first_some (x # xs) = (case x of Some y \<Rightarrow> Some y | None \<Rightarrow> first_some xs)"

fun re_match :: "re_item list \<Rightarrow> string \<Rightarrow> (string list \<times> string) option" where
  "re_match [] s = Some ([], s)"
| "re_match (Lit c # items) s =
     (case s of
        [] \<Rightarrow> None
      | x # xs \<Rightarrow> if x = c then re_match items xs else None)"
| "re_match (Rep p lo cap # items) s =
     first_some
       (map (\<lambda>n. case re_match items (drop n s) of
                    None \<Rightarrow> None
                  | Some (groups, rest) \<Rightarrow>
                      Some (if cap then take n s # groups else groups, rest))
          (rev [lo..<Suc (length (takeWhile p s))]))"

text \<open>\<open>re.search\<close>: the groups of the first match, trying each start from the left.\<close>

fun re_search :: "re_item list \<Rightarrow> string \<Rightarrow> string list option" where
  "re_search items [] =
     (case re_match items [] of Some (groups, rest) \<Rightarrow> Some groups | None \<Rightarrow> None)"
| "re_search items (x # xs) =
     (case re_match items (x # xs) of
        Some (groups, rest) \<Rightarrow> Some groups
      | None \<Rightarrow> re_search items xs)"

text \<open>
  \<open>re.findall\<close>: the groups of all matches that do not overlap, from left to right. After a
  match the scan goes on at its end (one character further after an empty match, which the
  patterns here never produce).
\<close>

function re_findall :: "re_item list \<Rightarrow> string \<Rightarrow> string list list" where
  "re_findall items [] =
     (case re_match items [] of Some (groups, rest) \<Rightarrow> [groups] | None \<Rightarrow> [])"
| "re_findall items (x # xs) =
     (case re_match items (x # xs) of
        None \<Rightarrow> re_findall items xs
      | Some (groups, rest) \<Rightarrow>
          groups # (if length rest < Suc (length xs) then re_findall items rest
                    else re_findall items xs))"
  by pat_completeness auto
termination
  by (relation "measure (\<lambda>(items, s). length s)") auto

text \<open>
  The classes \<open>[a-z0-9_]\<close> and \<open>\s\<close>, and \<open>str.strip\<close>. Whitespace, for both, is
  what \<open>str.isspace\<close> accepts: below 256 these are the code points 9 to 13, 28 to 32,
  133 and 160.
\<close>

definition is_word_char :: "char \<Rightarrow> bool" where
  "is_word_char c = (c \<in> set ''abcdefghijklmnopqrstuvwxyz0123456789_'')"

definition is_space :: "char \<Rightarrow> bool" where
  "is_space c =
     (c \<in> set [CHR 0x09, CHR 0x0A, CHR 0x0B, CHR 0x0C, CHR 0x0D,
                CHR 0x1C, CHR 0x1D, CHR 0x1E, CHR 0x1F, CHR '' '', CHR 0x85, CHR 0xA0])"

definition strip :: "string \<Rightarrow> string" where
  "strip s = rev (dropWhile is_space (rev (dropWhile is_space s)))"

text \<open>
  \<open>CITATION_PATTERN\<close> is \<^verbatim>\<open>\(([a-z0-9_]+),\s*([a-z0-9_]+)\)\<close>, \<open>PARSE_PATTERN\<close> is
  \<^verbatim>\<open>\(([^,]+),\s*([^)]+)\)\<close>, and \<open>SOURCE_PATTERN\<close> is \<^verbatim>\<open>\(([^,]+)\<close>.
\<close>

definition CITATION_PATTERN :: "re_item list" where
  "CITATION_PATTERN =
     [Lit (CHR ''(''), Rep is_word_char 1 True, Lit (CHR '',''), Rep is_space 0 False,
      Rep is_word_char 1 True, Lit (CHR '')'')]"

definition PARSE_PATTERN :: "re_item list" where
  "PARSE_PATTERN =
     [Lit (CHR ''(''), Rep (\<lambda>c. c \<noteq> CHR '','') 1 True, Lit (CHR '',''), Rep is_space 0 False,
      Rep (\<lambda>c. c \<noteq> CHR '')'') 1 True, Lit (CHR '')'')]"

definition SOURCE_PATTERN :: "re_item list" where
  "SOURCE_PATTERN = [Lit (CHR ''(''), Rep (\<lambda>c. c \<noteq> CHR '','') 1 True]"

subsection \<open>Extraction and precision\<close>

text \<open>
  \<open>_extract_citations\<close> (the same in both classes): each match \<open>m\<close> is rendered as
  \<^verbatim>\<open>(m[0], m[1])\<close>.
\<close>

definition render_citation :: "string list \<Rightarrow> string" where
  "render_citation m = ''('' @ m ! 0 @ '', '' @ m ! 1 @ '')''"

definition extract_citations :: "string \<Rightarrow> string list" where
  "extract_citations text = map render_citation (re_findall CITATION_PATTERN text)"

text \<open>
  A query result. The last five fields are the keys that \<open>enhance_answer\<close> adds
  (\<open>None\<close>: the key is absent).
\<close>

record query_result =
  query_id :: string
  query :: string
  answer :: string
  retrieved_chunks :: "chunk list"
  enhanced :: bool
  citation_validation_passed :: "bool option"
  invalid_citations :: "string list option"
  reference_list :: "string option"
  num_unique_sources :: "nat option"

text \<open>
  The loop of \<open>citation_precision\<close> over the citations, with its two lists; \<open>ids\<close> lists
  the members of the set \<open>retrieved_chunk_ids\<close>.
\<close>

fun classify_loop :: "string list \<Rightarrow> string list \<Rightarrow> string list \<Rightarrow> string list
     \<Rightarrow> string list \<times> string list" where
  "classify_loop ids [] valid invalid = (valid, invalid)"
| "classify_loop ids (cit # rest) valid invalid =
     (case re_search PARSE_PATTERN cit of
        None \<Rightarrow> classify_loop ids rest valid invalid
      | Some m \<Rightarrow>
          if strip (m ! 1) \<in> set ids then classify_loop ids rest (valid @ [cit]) invalid
          else classify_loop ids rest valid (invalid @ [cit]))"

text \<open>
  The dictionary that \<open>citation_precision\<close> returns; the key \<open>invalid_citations\<close> (here
  \<open>invalid_citations_count\<close>) is absent in the branch without citations. The quotient of
  the two lengths is a float in the source and an exact rational here.
\<close>

record precision_result =
  total_citations :: nat
  valid_citations :: nat
  invalid_citations_count :: "nat option"
  precision :: rat
  invalid :: "string list"

definition citation_precision :: "query_result \<Rightarrow> precision_result" where
  "citation_precision result =
     (let retrieved_chunk_ids = map chunk_id (retrieved_chunks result);
          citations = extract_citations (answer result)
      in if citations = [] then
           \<lparr>total_citations = 0, valid_citations = 0, invalid_citations_count = None,
            precision = 0, invalid = []\<rparr>
         else
           let (valid, invalid) = classify_loop retrieved_chunk_ids citations [] []
           in \<lparr>total_citations = length citations,
               valid_citations = length valid,
               invalid_citations_count = Some (length invalid),
               precision = (if citations \<noteq> [] then of_nat (length valid) / of_nat (length citations)
                            else 0),
               invalid = invalid\<rparr>)"

subsection \<open>Validation and the reference list\<close>

record manifest_item =
  item_id :: string
  title :: string
  authors :: string
  year :: string
  venue :: "string option"
  link_or_DOI :: string

record StructuredCitationGenerator =
  manifest :: "manifest_item list"

text \<open>\<open>manifest_dict\<close>: a later entry with the same id replaces an earlier one.\<close>

definition manifest_dict :: "StructuredCitationGenerator \<Rightarrow> string \<rightharpoonup> manifest_item" where
  "manifest_dict gen = map_of (rev (map (\<lambda>item. (item_id item, item)) (manifest gen)))"

definition py_join :: "string \<Rightarrow> string list \<Rightarrow> string" where
  "py_join sep xs = (case xs of [] \<Rightarrow> [] | y # ys \<Rightarrow> y @ concat (map (\<lambda>z. sep @ z) ys))"

text \<open>
  \<open>_build_references\<close>: \<open>source_ids\<close> lists the members of the set; they are sorted, and
  those in the manifest give one line each.
\<close>

definition build_references :: "StructuredCitationGenerator \<Rightarrow> string list \<Rightarrow> string" where
  "build_references gen source_ids =
     py_join [CHR 0x0A]
       (concat (map (\<lambda>sid. case manifest_dict gen sid of
                              None \<Rightarrow> []
                            | Some item \<Rightarrow>
                                [sid @ '': '' @ authors item @ '' ('' @ year item @ ''). ''
                                 @ title item @ ''. ''
                                 @ (case venue item of None \<Rightarrow> ''Various'' | Some v \<Rightarrow> v)
                                 @ ''. '' @ link_or_DOI item])
                  (sort (remdups source_ids))))"

text \<open>
  The two loops of \<open>enhance_answer\<close> over the citations; \<open>bad\<close> is the list
  \<open>invalid\<close>.
\<close>

fun invalid_loop :: "string list \<Rightarrow> string list \<Rightarrow> string list \<Rightarrow> string list" where
  "invalid_loop chunk_ids [] bad = bad"
| "invalid_loop chunk_ids (cit # rest) bad =
     (case re_search PARSE_PATTERN cit of
        None \<Rightarrow> invalid_loop chunk_ids rest bad
      | Some m \<Rightarrow>
          if strip (m ! 1) \<notin> set chunk_ids then invalid_loop chunk_ids rest (bad @ [cit])
          else invalid_loop chunk_ids rest bad)"

fun source_ids_loop :: "string list \<Rightarrow> string list \<Rightarrow> string list" where
  "source_ids_loop [] source_ids = source_ids"
| "source_ids_loop (cit # rest) source_ids =
     (case re_search SOURCE_PATTERN cit of
        None \<Rightarrow> source_ids_loop rest source_ids
      | Some m \<Rightarrow> source_ids_loop rest (List.insert (m ! 0) source_ids))"

definition enhance_answer :: "StructuredCitationGenerator \<Rightarrow> query_result \<Rightarrow> query_result" where
  "enhance_answer gen result =
     (let citations = extract_citations (answer result);
          chunk_ids = map chunk_id (retrieved_chunks result);
          invalid = invalid_loop chunk_ids citations [];
          source_ids = source_ids_loop citations []
      in result\<lparr>enhanced := True,
                citation_validation_passed := Some (length invalid = 0),
                invalid_citations := Some invalid,
                reference_list := Some (build_references gen source_ids),
                num_unique_sources := Some (length source_ids)\<rparr>)"

text \<open>
  A token of a citation: a non-empty string over \<open>[a-z0-9_]\<close>, what each group of
  \<open>CITATION_PATTERN\<close> captures.
\<close>

definition is_token :: "string \<Rightarrow> bool" where
  "is_token w = (w \<noteq> [] \<and> list_all is_word_char w)"

text \<open>
  The result of the example in the specification: the retrieved chunk \<open>a\<close> and an answer that
  cites \<open>(src, a)\<close> and \<open>(src, z)\<close>.
\<close>

definition example_result :: query_result where
  "example_result =
     \<lparr>query_id = ''q1'', query = ''question'',
      answer = ''First claim (src, a). Second claim (src, z).'',
      retrieved_chunks = [mk_chunk ''a'' ''passage''],
      enhanced = False, citation_validation_passed = None, invalid_citations = None,
      reference_list = None, num_unique_sources = None\<rparr>"

section \<open>Failure mining (src/eval/compare\_baseline\_enhanced.py)\<close>

text \<open>
  A row of the scores table, with the columns that the classification reads. The scores are
  floats in the table, modelled as rationals; an empty cell (\<open>NaN\<close>) is \<open>None\<close>, and a
  comparison with it is false. \<open>scored_row\<close> is the row that \<open>score_all_results\<close> appends
  for a result, given the two scores of the judge.
\<close>

record score_row =
  row_query_id :: string
  row_citation_precision :: rat
  row_total_citations :: nat
  row_groundedness_score :: "rat option"
  row_answer_relevance :: "rat option"

definition scored_row :: "query_result \<Rightarrow> rat option \<Rightarrow> rat option \<Rightarrow> score_row" where
  "scored_row r groundedness relevance =
     \<lparr>row_query_id = query_id r,
      row_citation_precision = precision (citation_precision r),
      row_total_citations = total_citations (citation_precision r),
      row_groundedness_score = groundedness,
      row_answer_relevance = relevance\<rparr>"

datatype failure_type =
  LowCitationPrecision | MissingCitations | LowGroundedness | LowAnswerRelevance
| InvalidCitations

text \<open>
  An entry of the list \<open>failures\<close>: its type and its query id. The other keys of an entry
  are copied from the row and from the result and play no part in the classification.
\<close>

record failure =
  f_type :: failure_type
  f_query_id :: string

text \<open>
  \<open>results_dict\<close>: a later result with the same query id replaces an earlier one.
  \<open>result_chunks\<close> is \<^verbatim>\<open>results_dict.get(query_id, {}).get('retrieved_chunks', [])\<close>.
\<close>

definition results_dict :: "query_result list \<Rightarrow> string \<rightharpoonup> query_result" where
  "results_dict results = map_of (rev (map (\<lambda>r. (query_id r, r)) results))"

definition result_chunks :: "query_result list \<Rightarrow> string \<Rightarrow> chunk list" where
  "result_chunks results qid =
     (case results_dict results qid of None \<Rightarrow> [] | Some r \<Rightarrow> retrieved_chunks r)"

text \<open>The conditions of the five rules.\<close>

definition low_precision :: "score_row \<Rightarrow> bool" where
  "low_precision row = (row_citation_precision row < 8 / 10)"

definition no_citations :: "query_result list \<Rightarrow> score_row \<Rightarrow> bool" where
  "no_citations results row =
     (row_total_citations row = 0 \<and> length (result_chunks results (row_query_id row)) > 0)"

definition low_groundedness :: "score_row \<Rightarrow> bool" where
  "low_groundedness row =
     (case row_groundedness_score row of None \<Rightarrow> False | Some g \<Rightarrow> g < 3)"

definition low_relevance :: "score_row \<Rightarrow> bool" where
  "low_relevance row =
     (case row_answer_relevance row of None \<Rightarrow> False | Some a \<Rightarrow> a < 3)"

definition has_invalid :: "query_result \<Rightarrow> bool" where
  "has_invalid r = (case invalid_citations r of None \<Rightarrow> False | Some cits \<Rightarrow> cits \<noteq> [])"

text \<open>
  The loops of rules 3, 4 and 5 have the same body: an entry is appended for a query id
  unless \<open>failures\<close> already holds an entry with that id. \<open>qids\<close> are the query ids of
  the selected rows (rule 5: results), in order.
\<close>

fun append_unclassified :: "failure_type \<Rightarrow> string list \<Rightarrow> failure list \<Rightarrow> failure list" where
  "append_unclassified t [] failures = failures"
| "append_unclassified t (qid # rest) failures =
     (if qid \<notin> set (map f_query_id failures)
      then append_unclassified t rest (failures @ [\<lparr>f_type = t, f_query_id = qid\<rparr>])
      else append_unclassified t rest failures)"

text \<open>
  The list \<open>failures\<close> as \<open>find_failure_cases\<close> has built it when it starts to select
  the representative cases. The loops of rules 1 and 2 append an entry for every selected
  row, without a look at \<open>failures\<close>.
\<close>

definition rule1_entries :: "score_row list \<Rightarrow> failure list" where
  "rule1_entries scores =
     map (\<lambda>row. \<lparr>f_type = LowCitationPrecision, f_query_id = row_query_id row\<rparr>)
       (filter low_precision scores)"

definition rule2_entries :: "score_row list \<Rightarrow> query_result list \<Rightarrow> failure list" where
  "rule2_entries scores results =
     map (\<lambda>row. \<lparr>f_type = MissingCitations, f_query_id = row_query_id row\<rparr>)
       (filter (no_citations results) scores)"

definition failure_candidates :: "score_row list \<Rightarrow> query_result list \<Rightarrow> failure list" where
  "failure_candidates scores results =
     (let failures1 = rule1_entries scores;
          failures2 = failures1 @ rule2_entries scores results;
          failures3 = append_unclassified LowGroundedness
                        (map row_query_id (filter low_groundedness scores)) failures2;
          failures4 = append_unclassified LowAnswerRelevance
                        (map row_query_id (filter low_relevance scores)) failures3
      in append_unclassified InvalidCitations
           (map query_id (filter has_invalid results)) failures4)"

text \<open>
  Results without citations, for concrete runs: \<open>bare_result q n\<close> has the query id \<open>q\<close>,
  \<open>n\<close> retrieved chunks and an answer that cites nothing.
\<close>

definition bare_result :: "string \<Rightarrow> nat \<Rightarrow> query_result" where
  "bare_result q n =
     \<lparr>query_id = q, query = ''question'', answer = ''No evidence was found.'',
      retrieved_chunks = replicate n (mk_chunk ''doc_chunk_001'' ''passage''),
      enhanced = True, citation_validation_passed = Some True, invalid_citations = Some [],
      reference_list = Some [], num_unique_sources = Some 0\<rparr>"

section \<open>Properties of the retry wrapper\<close>

text \<open>
  One run of the loop over the attempts \<open>a, ..., max_retries\<close>, with non-negative delays:
  how many calls it makes, what it sleeps, and what it hands back.
\<close>

lemma retry_loop_upto:
  assumes "0 \<le> delay" "0 \<le> b" "0 \<le> m" "a \<le> mr"
    and "retry_loop fn mr m b [a..mr] delay last_e tr = (out, tr')"
  shows "attempts tr < attempts tr' \<and> attempts tr' \<le> attempts tr + nat (mr + 1 - a)
    \<and> sleeps tr' = sleeps tr @ spec_backoff delay b m (attempts tr' - attempts tr - 1)
    \<and> (\<forall>i. attempts tr \<le> i \<and> i < attempts tr' - 1 \<longrightarrow> (\<exists>e. fn i = Inl e \<and> is_retryable e))
    \<and> out = (case fn (attempts tr' - 1) of Inr v \<Rightarrow> Returned v | Inl e \<Rightarrow> Raised (CallError e))
    \<and> (attempts tr' = attempts tr + nat (mr + 1 - a)
         \<or> \<not> (\<exists>e. fn (attempts tr' - 1) = Inl e \<and> is_retryable e))"
  using assms
proof (induction "nat (mr - a)" arbitrary: a delay last_e tr)
  case 0
  then have "a = mr" by simp
  then have up: "[a..mr] = [mr]" by (simp add: upto_rec1)
  show ?case
  proof (cases "fn (attempts tr)")
    case (Inl e)
    with 0 up show ?thesis by (auto simp: Let_def)
  next
    case (Inr v)
    with 0 up show ?thesis by (auto simp: Let_def)
  qed
next
  case (Suc n)
  then have lt: "a < mr" by linarith
  then have up: "[a..mr] = a # [a + 1..mr]" by (simp add: upto_rec1)
  show ?case
  proof (cases "fn (attempts tr)")
    case (Inr v)
    with Suc.prems up show ?thesis by (auto simp: Let_def)
  next
    case (Inl e)
    show ?thesis
    proof (cases "is_retryable e")
      case False
      with Inl Suc.prems up show ?thesis by (auto simp: Let_def)
    next
      case True
      let ?tr2 = "tr\<lparr>attempts := attempts tr + 1, sleeps := sleeps tr @ [delay]\<rparr>"
      let ?d2 = "min (delay * b) m"
      have rec: "retry_loop fn mr m b [a + 1..mr] ?d2 (Some e) ?tr2 = (out, tr')"
        using Suc.prems(5) up Inl True lt Suc.prems(1) by (simp add: Let_def)
      have n: "n = nat (mr - (a + 1))" using Suc.hyps(2) by linarith
      have d2: "0 \<le> ?d2" using Suc.prems(1,2,3) by simp
      have le: "a + 1 \<le> mr" using lt by simp
      note IH = Suc.hyps(1)[OF n d2 Suc.prems(2) Suc.prems(3) le rec]
      have a2: "attempts ?tr2 = attempts tr + 1" by simp
      have s2: "sleeps ?tr2 = sleeps tr @ [delay]" by simp
      from IH have gt: "attempts tr + 1 < attempts tr'" by simp
      then obtain k where k: "attempts tr' - attempts tr - 1 = Suc k"
        by (metis Suc_diff_Suc diff_diff_left plus_1_eq_Suc add.commute)
      have "\<forall>i. attempts tr \<le> i \<and> i < attempts tr' - 1 \<longrightarrow> (\<exists>e. fn i = Inl e \<and> is_retryable e)"
      proof (intro allI impI)
        fix i assume i: "attempts tr \<le> i \<and> i < attempts tr' - 1"
        show "\<exists>e. fn i = Inl e \<and> is_retryable e"
        proof (cases "i = attempts tr")
          case True
          with Inl \<open>is_retryable e\<close> show ?thesis by simp
        next
          case False
          with i have "attempts ?tr2 \<le> i \<and> i < attempts tr' - 1" by simp
          with IH show ?thesis by blast
        qed
      qed
      moreover have nn: "nat (mr + 1 - (a + 1)) + 1 = nat (mr + 1 - a)" using lt by linarith
      moreover have "sleeps tr' = sleeps tr @ spec_backoff delay b m (attempts tr' - attempts tr - 1)"
      proof -
        have kk: "attempts tr' - Suc (Suc (attempts tr)) = k" using k by arith
        from IH have "sleeps tr' = sleeps tr @ delay #
            spec_backoff (min (delay * b) m) b m (attempts tr' - Suc (Suc (attempts tr)))"
          by simp
        then show ?thesis unfolding k kk by simp
      qed
      moreover have "attempts tr' \<le> attempts tr + nat (mr + 1 - a)"
        using IH nn by simp
      moreover have "attempts tr' = attempts tr + nat (mr + 1 - a)
         \<or> \<not> (\<exists>e. fn (attempts tr' - 1) = Inl e \<and> is_retryable e)"
        using IH nn by auto
      moreover have "attempts tr < attempts tr'" using gt by simp
      moreover have "out = (case fn (attempts tr' - 1) of Inr v \<Rightarrow> Returned v | Inl e \<Rightarrow> Raised (CallError e))"
        using IH by simp
      ultimately show ?thesis by blast
    qed
  qed
qed

text \<open>\<open>is_retryable\<close> as a condition on the class and the status code.\<close>

lemma is_retryable_iff:
  "is_retryable e \<longleftrightarrow>
     (exc_cls e = APITimeoutError \<or> exc_cls e = APIConnectionError
      \<or> (exc_cls e \<in> {RateLimitError, InternalServerError, OtherStatusError}
          \<and> status_code_of e \<in> {Some 429, Some 500, Some 502, Some 503}))"
  by (cases "exc_cls e")
     (auto simp: is_retryable_def isinstance_def RETRYABLE_EXCEPTIONS_def
        RETRYABLE_STATUS_CODES_def split: option.splits)

text \<open>The same facts for \<open>with_retry\<close>, whose loop starts at attempt 0.\<close>

lemma with_retry_result:
  assumes "0 \<le> max_retries" "0 \<le> initial_delay" "0 \<le> max_delay" "0 \<le> exponential_base"
    and "with_retry fn max_retries initial_delay max_delay exponential_base = (out, tr)"
  shows "1 \<le> attempts tr \<and> attempts tr \<le> nat (max_retries + 1)
    \<and> sleeps tr = spec_backoff initial_delay exponential_base max_delay (attempts tr - 1)
    \<and> (\<forall>i<attempts tr - 1. \<exists>e. fn i = Inl e \<and> is_retryable e)
    \<and> out = (case fn (attempts tr - 1) of Inr v \<Rightarrow> Returned v | Inl e \<Rightarrow> Raised (CallError e))
    \<and> (attempts tr = nat (max_retries + 1)
         \<or> \<not> (\<exists>e. fn (attempts tr - 1) = Inl e \<and> is_retryable e))"
  using retry_loop_upto[OF assms(2) assms(4) assms(3) assms(1) assms(5)[unfolded with_retry_def]]
  by simp

text \<open>
  Claim C6, as stated, fails: a 5xx server error with status 504 is a retryable failure in
  the words of the specification, and \<open>is_retryable\<close> classifies it as fatal, because
  \<open>RETRYABLE_STATUS_CODES\<close> holds only 429, 500, 502 and 503.
\<close>

theorem is_retryable_5xx_counterexample:
  "spec_retryable (status_error InternalServerError 504)
   \<and> \<not> is_retryable (status_error InternalServerError 504)"
  by (simp add: spec_retryable_def status_error_def is_retryable_iff status_code_of_def)

text \<open>
  Claim C6, amended: a failure is retryable exactly when it is a timeout, a connection
  failure, or a status error (rate-limit errors included) whose status code is 429, 500, 502
  or 503; every other failure is fatal, which includes every 4xx status other than 429 and
  the 5xx statuses outside that set. A fatal failure at call number \<open>k\<close>, reached after
  \<open>k\<close> retryable failures, is raised at once: the run makes exactly \<open>k + 1\<close> calls and
  sleeps only the \<open>k\<close> delays of the retries before it, none after the fatal failure.
\<close>

theorem fatal_failure_raised_immediately:
  assumes "0 \<le> initial_delay" "0 \<le> max_delay" "0 \<le> exponential_base"
    and "int k \<le> max_retries"
    and "\<forall>i<k. \<exists>e'. fn i = Inl e' \<and> is_retryable e'"
    and "fn k = Inl e" "\<not> is_retryable e"
  shows "(\<forall>x. is_retryable x \<longleftrightarrow>
            (exc_cls x = APITimeoutError \<or> exc_cls x = APIConnectionError
             \<or> (exc_cls x \<in> {RateLimitError, InternalServerError, OtherStatusError}
                 \<and> status_code_of x \<in> {Some 429, Some 500, Some 502, Some 503})))
       \<and> with_retry fn max_retries initial_delay max_delay exponential_base
           = (Raised (CallError e),
              \<lparr>sleeps = spec_backoff initial_delay exponential_base max_delay k,
               attempts = k + 1\<rparr>)"
proof -
  obtain out tr where run:
    "with_retry fn max_retries initial_delay max_delay exponential_base = (out, tr)"
    by (cases "with_retry fn max_retries initial_delay max_delay exponential_base")
  have mr: "0 \<le> max_retries" using assms(4) by linarith
  note R = with_retry_result[OF mr assms(1) assms(2) assms(3) run]
  let ?j = "attempts tr - 1"
  have "\<not> k < ?j" using R assms(6,7) by auto
  moreover have "\<not> ?j < k"
  proof
    assume lt: "?j < k"
    then obtain e' where "fn ?j = Inl e'" "is_retryable e'" using assms(5) by blast
    with R have "attempts tr = nat (max_retries + 1)" by blast
    then show False using lt assms(4) by linarith
  qed
  ultimately have j: "?j = k" by simp
  then have a: "attempts tr = k + 1" using R by linarith
  have "out = Raised (CallError e)" using R j assms(6) by simp
  moreover have "tr = \<lparr>sleeps = spec_backoff initial_delay exponential_base max_delay k,
       attempts = k + 1\<rparr>"
    using R j a by (cases tr) simp
  ultimately show ?thesis using run is_retryable_iff by simp
qed

text \<open>
  Witness for C6: a 500 followed by a 404. The 404 is raised on the second call after the one
  sleep of the retry.
\<close>

theorem fatal_failure_raised_immediately_witness:
  "with_retry (\<lambda>n. if n < 1 then Inl (status_error InternalServerError 500)
                   else (Inl (status_error OtherStatusError 404) :: exc + nat)) 5 1 60 2
     = (Raised (CallError (status_error OtherStatusError 404)), \<lparr>sleeps = [1], attempts = 2\<rparr>)"
  using fatal_failure_raised_immediately[of 1 60 2 1 5
      "\<lambda>n. if n < 1 then Inl (status_error InternalServerError 500)
                   else (Inl (status_error OtherStatusError 404) :: exc + nat)"
      "status_error OtherStatusError 404"]
  by (simp add: is_retryable_iff status_error_def status_code_of_def)

text \<open>
  The schedule: it has one delay per retry, its first delay is the starting delay itself,
  every later delay is at most the cap, and so are all of them when the starting delay is.
\<close>

lemma spec_backoff_length: "length (spec_backoff dl b m n) = n"
  by (induction n arbitrary: dl) simp_all

lemma spec_backoff_capped:
  "dl \<le> m \<Longrightarrow> x \<in> set (spec_backoff dl b m n) \<Longrightarrow> x \<le> m"
proof (induction n arbitrary: dl)
  case 0
  then show ?case by simp
next
  case (Suc n)
  from Suc.prems(2) have "x = dl \<or> x \<in> set (spec_backoff (min (dl * b) m) b m n)" by simp
  then show ?case
  proof
    assume "x = dl"
    with Suc.prems(1) show ?thesis by simp
  next
    assume "x \<in> set (spec_backoff (min (dl * b) m) b m n)"
    moreover have "min (dl * b) m \<le> m" by simp
    ultimately show ?thesis using Suc.IH by blast
  qed
qed

lemma spec_backoff_later_capped:
  assumes "0 < i" "i < n"
  shows "spec_backoff dl b m n ! i \<le> m"
proof -
  from assms obtain n' where n: "n = Suc n'" by (cases n) auto
  from assms(1) obtain i' where i: "i = Suc i'" by (cases i) auto
  have "i' < length (spec_backoff (min (dl * b) m) b m n')"
    using assms(2) unfolding n i spec_backoff_length by simp
  then have "spec_backoff (min (dl * b) m) b m n' ! i' \<in> set (spec_backoff (min (dl * b) m) b m n')"
    by (rule nth_mem)
  moreover have "min (dl * b) m \<le> m" by simp
  ultimately have "spec_backoff (min (dl * b) m) b m n' ! i' \<le> m"
    using spec_backoff_capped by blast
  then show ?thesis unfolding n i by simp
qed

text \<open>
  Claim C7, as stated, fails: with \<open>initial_delay = 100\<close> and \<open>max_delay = 60\<close> a call that
  keeps failing with a rate-limit error sleeps 100, 60 and 60 seconds. The first sleep is
  \<open>initial_delay\<close> itself and is above the cap.
\<close>

theorem with_retry_first_sleep_uncapped_counterexample:
  "with_retry (\<lambda>n. (Inl (status_error RateLimitError 429) :: exc + nat)) 3 100 60 2
     = (Raised (CallError (status_error RateLimitError 429)),
        \<lparr>sleeps = [100, 60, 60], attempts = 4\<rparr>)
   \<and> (60::rat) < hd [100, 60, 60]"
  by (simp add: with_retry_def upto_rec1 is_retryable_iff status_error_def status_code_of_def)

text \<open>
  Claim C7, amended: a call under the retry policy makes at least one and at most
  \<open>max_retries + 1\<close> attempts; it sleeps before each retry, one sleep per retry; the first
  sleep is \<open>initial_delay\<close> itself, and each later sleep is the previous one multiplied by
  \<open>exponential_base\<close> and capped at \<open>max_delay\<close>, so every sleep after the first is at
  most \<open>max_delay\<close>, and all sleeps are when \<open>initial_delay \<le> max_delay\<close>; every attempt
  but the last failed with a retryable error; the run ends with the outcome of its last
  attempt, so when the retries are exhausted the last error propagates; and it stops before
  \<open>max_retries + 1\<close> attempts only when the last attempt returned or failed fatally. With
  \<open>initial_delay = 1\<close>, \<open>exponential_base = 2\<close>, \<open>max_delay = 60\<close> (and the default
  \<open>max_retries = 5\<close>), a call that fails twice with a rate-limit error and then succeeds
  sleeps 1 and 2 seconds and makes 3 attempts.
\<close>

theorem with_retry_attempts_and_backoff:
  assumes "0 \<le> max_retries" "0 \<le> initial_delay" "0 \<le> max_delay" "0 \<le> exponential_base"
    and "with_retry fn max_retries initial_delay max_delay exponential_base = (out, tr)"
  shows "(1 \<le> attempts tr \<and> attempts tr \<le> nat (max_retries + 1)
    \<and> sleeps tr = spec_backoff initial_delay exponential_base max_delay (attempts tr - 1)
    \<and> length (sleeps tr) = attempts tr - 1
    \<and> (sleeps tr \<noteq> [] \<longrightarrow> hd (sleeps tr) = initial_delay)
    \<and> (\<forall>i. Suc i < length (sleeps tr) \<longrightarrow>
          sleeps tr ! Suc i = min (sleeps tr ! i * exponential_base) max_delay)
    \<and> (\<forall>i. 0 < i \<and> i < length (sleeps tr) \<longrightarrow> sleeps tr ! i \<le> max_delay)
    \<and> (initial_delay \<le> max_delay \<longrightarrow> (\<forall>x\<in>set (sleeps tr). x \<le> max_delay))
    \<and> (\<forall>i<attempts tr - 1. \<exists>e. fn i = Inl e \<and> is_retryable e)
    \<and> out = (case fn (attempts tr - 1) of Inr v \<Rightarrow> Returned v | Inl e \<Rightarrow> Raised (CallError e))
    \<and> (attempts tr = nat (max_retries + 1)
         \<or> \<not> (\<exists>e. fn (attempts tr - 1) = Inl e \<and> is_retryable e)))
    \<and> with_retry (\<lambda>n. if n < 2 then Inl (status_error RateLimitError 429) else Inr v) 5 1 60 2
        = (Returned v, \<lparr>sleeps = [1, 2], attempts = 3\<rparr>)"
proof -
  note R = with_retry_result[OF assms]
  let ?n = "attempts tr - 1"
  have sl: "sleeps tr = spec_backoff initial_delay exponential_base max_delay ?n"
    using R by blast
  have len: "length (sleeps tr) = ?n" unfolding sl by (rule spec_backoff_length)
  have hd: "sleeps tr \<noteq> [] \<longrightarrow> hd (sleeps tr) = initial_delay"
    unfolding sl by (cases ?n) simp_all
  have step: "\<forall>i. Suc i < length (sleeps tr) \<longrightarrow>
          sleeps tr ! Suc i = min (sleeps tr ! i * exponential_base) max_delay"
  proof -
    have "Suc i < n \<Longrightarrow> spec_backoff dl exponential_base max_delay n ! Suc i
        = min (spec_backoff dl exponential_base max_delay n ! i * exponential_base) max_delay"
      for i n dl
    proof (induction n arbitrary: i dl)
      case 0
      then show ?case by simp
    next
      case (Suc n)
      show ?case
      proof (cases i)
        case 0
        with Suc.prems obtain n' where "n = Suc n'" by (cases n) auto
        with 0 show ?thesis by simp
      next
        case (Suc i')
        with Suc.prems have "Suc i' < n" by simp
        from Suc.IH[OF this] Suc show ?thesis by simp
      qed
    qed
    then show ?thesis unfolding len unfolding sl by blast
  qed
  have later: "\<forall>i. 0 < i \<and> i < length (sleeps tr) \<longrightarrow> sleeps tr ! i \<le> max_delay"
    unfolding len unfolding sl using spec_backoff_later_capped by blast
  have all: "initial_delay \<le> max_delay \<longrightarrow> (\<forall>x\<in>set (sleeps tr). x \<le> max_delay)"
    unfolding sl using spec_backoff_capped by blast
  have ex: "with_retry (\<lambda>n. if n < 2 then Inl (status_error RateLimitError 429) else Inr v) 5 1 60 2
        = (Returned v, \<lparr>sleeps = [1, 2], attempts = 3\<rparr>)"
    by (simp add: with_retry_def upto_rec1 is_retryable_iff status_error_def status_code_of_def)
  from R len hd step later all ex show ?thesis by blast
qed

text \<open>
  Witness for C7: with \<open>max_retries = 3\<close> and a cap of 3 seconds, a call that always fails
  with a 503 makes 4 attempts, sleeps 1, 2 and 3 seconds, and raises the 503.
\<close>

theorem with_retry_attempts_and_backoff_witness:
  "with_retry (\<lambda>n. (Inl (status_error InternalServerError 503) :: exc + nat)) 3 1 3 2
     = (Raised (CallError (status_error InternalServerError 503)),
        \<lparr>sleeps = [1, 2, 3], attempts = 4\<rparr>)
   \<and> [1, 2, 3] = spec_backoff 1 2 3 (4 - 1)
   \<and> length [1, 2, 3 :: rat] = 4 - 1"
proof -
  have run: "with_retry (\<lambda>n. (Inl (status_error InternalServerError 503) :: exc + nat)) 3 1 3 2
     = (Raised (CallError (status_error InternalServerError 503)),
        \<lparr>sleeps = [1, 2, 3], attempts = 4\<rparr>)"
    by (simp add: with_retry_def upto_rec1 is_retryable_iff status_error_def status_code_of_def)
  have "(0::int) \<le> 3" "(0::rat) \<le> 1" "(0::rat) \<le> 3" "(0::rat) \<le> 2" by simp_all
  from with_retry_attempts_and_backoff[OF this run, of 0] run show ?thesis
    by (simp add: numeral_3_eq_3)
qed

section \<open>Properties of the chunker\<close>

text \<open>
  With a positive stride the loop returns, and its result has a closed form: one chunk per
  start \<open>start, start + s, start + 2s, ...\<close> below the token count.
\<close>

lemma chunk_loop_closed:
  assumes "overlap c < chunk_size c"
    and "n = nat ((int (length tokens) - start + (chunk_size c - overlap c) - 1)
                   div (chunk_size c - overlap c))"
  shows "chunk_loop c tokens sid start num acc =
     Some (Inr (acc @ map (\<lambda>i. make_chunk c tokens sid
                                (start + int i * (chunk_size c - overlap c)) (num + i)) [0..<n]))"
  using assms(2)
proof (induction n arbitrary: start num acc)
  case 0
  let ?s = "chunk_size c - overlap c"
  have s: "0 < ?s" using assms(1) by simp
  have "\<not> 0 < (int (length tokens) - start + ?s - 1) div ?s" using 0 by linarith
  then have "\<not> ?s \<le> int (length tokens) - start + ?s - 1"
    using pos_imp_zdiv_pos_iff[OF s] by blast
  then have "\<not> start < int (length tokens)" by linarith
  then show ?case by (subst chunk_loop.simps) simp
next
  case (Suc n)
  let ?s = "chunk_size c - overlap c"
  let ?x = "int (length tokens) - start + ?s - 1"
  have s: "0 < ?s" using assms(1) by simp
  have "0 < ?x div ?s" using Suc.prems by linarith
  then have "?s \<le> ?x" using pos_imp_zdiv_pos_iff[OF s] by blast
  then have lt: "start < int (length tokens)" by linarith
  have "?x = (?x - ?s) + ?s" by simp
  then have "?x div ?s = ((?x - ?s) + ?s) div ?s" by (rule arg_cong)
  also have "\<dots> = (?x - ?s) div ?s + 1" using s by (subst div_add_self2) simp_all
  finally have "n = nat ((int (length tokens) - (start + ?s) + ?s - 1) div ?s)"
    using Suc.prems by (simp add: algebra_simps)
  note IH = Suc.IH[OF this, of "num + 1" "acc @ [make_chunk c tokens sid start num]"]
  have shift: "map (\<lambda>i. make_chunk c tokens sid (start + int i * ?s) (num + i)) [0..<Suc n]
      = make_chunk c tokens sid start num
        # map (\<lambda>i. make_chunk c tokens sid (start + ?s + int i * ?s) (num + 1 + i)) [0..<n]"
    by (simp add: upt_conv_Cons map_Suc_upt[symmetric] algebra_simps del: upt_Suc)
  show ?case
    by (subst chunk_loop.simps) (simp only: lt if_True IH shift append_Cons append_Nil append_assoc)
qed

text \<open>
  With a stride that is not positive, the loop does not return once it is entered.
\<close>

lemma chunk_loop_diverges:
  assumes "chunk_size c \<le> overlap c" and "start < int (length tokens)"
  shows "chunk_loop c tokens sid start num acc = None"
proof (rule ccontr)
  assume "chunk_loop c tokens sid start num acc \<noteq> None"
  then obtain y where y: "chunk_loop c tokens sid start num acc = Some y" by blast
  have "chunk_size c \<le> overlap c \<longrightarrow> \<not> start < int (length tokens)"
    by (rule chunk_loop.raw_induct[where P = "\<lambda>c tokens sid start num acc y.
          chunk_size c \<le> overlap c \<longrightarrow> \<not> start < int (length tokens)", OF _ y])
       (fastforce split: if_splits)
  with assms show False by simp
qed

lemma chunk_text_closed:
  assumes "overlap c < chunk_size c"
  shows "chunk_text c text sid =
     Some (Inr (map (\<lambda>i. make_chunk c (encode (tokenizer c) text) sid
                          (int i * (chunk_size c - overlap c)) (Suc i))
        [0..<nat ((int (length (encode (tokenizer c) text)) + (chunk_size c - overlap c) - 1)
                    div (chunk_size c - overlap c))]))"
  unfolding chunk_text_def
  by (subst chunk_loop_closed[OF assms refl]) simp

text \<open>
  Slices with non-negative bounds, and the tokens of the window that starts at \<open>start\<close>.
\<close>

lemma take_min_length: "take (min n (length ys)) ys = take n ys"
  by (cases "n \<le> length ys") (simp_all add: min_def)

lemma py_slice_nonneg:
  assumes "0 \<le> i" "0 \<le> j"
  shows "py_slice xs i j = take (nat j - nat i) (drop (nat i) xs)"
proof (cases "nat i \<le> length xs")
  case True
  have lo: "slice_bound (length xs) i = nat i"
    using assms(1) True by (simp add: slice_bound_def)
  have hi: "slice_bound (length xs) j = min (length xs) (nat j)"
    using assms(2) by (simp add: slice_bound_def)
  have ar: "min (length xs) (nat j) - nat i = min (nat j - nat i) (length xs - nat i)"
    by arith
  have "take (nat j - nat i) (drop (nat i) xs)
      = take (min (nat j - nat i) (length (drop (nat i) xs))) (drop (nat i) xs)"
    by (simp only: take_min_length)
  also have "\<dots> = take (min (length xs) (nat j) - nat i) (drop (nat i) xs)"
    unfolding ar by simp
  finally show ?thesis
    unfolding py_slice_def Let_def lo hi by simp
next
  case False
  then have lo: "slice_bound (length xs) i = length xs"
    using assms(1) by (simp add: slice_bound_def)
  from False show ?thesis
    unfolding py_slice_def Let_def lo by simp
qed

lemma chunk_tokens_window:
  assumes "0 \<le> start" "0 \<le> chunk_size c"
  shows "chunk_tokens c tokens start =
     take (nat (chunk_size c)) (drop (nat start) tokens)"
proof -
  let ?L = "length tokens"
  have e: "0 \<le> window_end c tokens start"
    using assms by (simp add: window_end_def)
  have "chunk_tokens c tokens start
      = take (nat (window_end c tokens start) - nat start) (drop (nat start) tokens)"
    unfolding chunk_tokens_def by (rule py_slice_nonneg[OF assms(1) e])
  also have "\<dots> = take (min (nat (chunk_size c)) (?L - nat start)) (drop (nat start) tokens)"
  proof -
    have "nat (window_end c tokens start) - nat start
        = min (nat (chunk_size c)) (?L - nat start)"
      using assms unfolding window_end_def by linarith
    then show ?thesis by simp
  qed
  also have "\<dots> = take (nat (chunk_size c)) (drop (nat start) tokens)"
    using take_min_length[of "nat (chunk_size c)" "drop (nat start) tokens"] by simp
  finally show ?thesis .
qed


text \<open>
  The number of windows: \<open>i\<close> is below it exactly when the start \<open>i * s\<close> is below the
  token count.
\<close>

lemma int_le_div_iff:
  fixes s :: int
  assumes "0 < s"
  shows "k \<le> a div s \<longleftrightarrow> k * s \<le> a"
proof
  assume "k \<le> a div s"
  then have "k * s \<le> (a div s) * s" using assms by (simp add: mult_right_mono)
  also have "\<dots> = a - a mod s" by (simp add: minus_mod_eq_div_mult)
  also have "\<dots> \<le> a" using assms by simp
  finally show "k * s \<le> a" .
next
  assume "k * s \<le> a"
  then have "(k * s) div s \<le> a div s" using assms by (rule zdiv_mono1)
  then show "k \<le> a div s" using assms by simp
qed

lemma window_count:
  fixes s :: int
  assumes "0 < s"
  shows "int i * s < L \<longleftrightarrow> i < nat ((L + s - 1) div s)"
proof -
  have "i < nat ((L + s - 1) div s) \<longleftrightarrow> int i + 1 \<le> (L + s - 1) div s" by linarith
  also have "\<dots> \<longleftrightarrow> (int i + 1) * s \<le> L + s - 1"
    by (rule int_le_div_iff[OF assms])
  also have "\<dots> \<longleftrightarrow> int i * s < L"
  proof -
    have "(int i + 1) * s = int i * s + s" by (simp add: algebra_simps)
    then show ?thesis by linarith
  qed
  finally show ?thesis by simp
qed


lemma spec_window_starts_length:
  "length (spec_window_starts c tokens)
     = nat ((int (length tokens) + stride c - 1) div stride c)"
  by (simp add: spec_window_starts_def)

lemma spec_window_starts_nth:
  "i < length (spec_window_starts c tokens) \<Longrightarrow> spec_window_starts c tokens ! i = int i * stride c"
  by (simp add: spec_window_starts_def)

lemma spec_window_starts_bound:
  assumes "0 < stride c"
  shows "i < length (spec_window_starts c tokens) \<longleftrightarrow> int i * stride c < int (length tokens)"
  unfolding spec_window_starts_length using window_count[OF assms] by simp

lemma chunk_text_starts:
  assumes "overlap c < chunk_size c"
  shows "chunk_text c text sid =
     Some (Inr (map (\<lambda>i. make_chunk c (encode (tokenizer c) text) sid
                           (spec_window_starts c (encode (tokenizer c) text) ! i) (Suc i))
            [0..<length (spec_window_starts c (encode (tokenizer c) text))]))"
proof -
  have "map (\<lambda>i. make_chunk c (encode (tokenizer c) text) sid
                           (spec_window_starts c (encode (tokenizer c) text) ! i) (Suc i))
            [0..<length (spec_window_starts c (encode (tokenizer c) text))]
      = map (\<lambda>i. make_chunk c (encode (tokenizer c) text) sid (int i * stride c) (Suc i))
            [0..<length (spec_window_starts c (encode (tokenizer c) text))]"
    by (rule map_cong) (simp_all add: spec_window_starts_nth)
  then show ?thesis
    unfolding chunk_text_closed[OF assms] spec_window_starts_length stride_def by simp
qed

lemma overlap_of_consecutive_windows:
  assumes "0 \<le> overlap c" "overlap c < chunk_size c"
    and "Suc i < length (spec_window_starts c tokens)"
  shows "drop (nat (stride c)) (chunk_tokens c tokens (int i * stride c))
       = take (nat (overlap c)) (chunk_tokens c tokens (int (Suc i) * stride c))"
proof -
  have s: "0 < stride c" using assms by (simp add: stride_def)
  have cs: "0 \<le> chunk_size c" using assms by simp
  have a: "(0::int) \<le> int i * stride c" using s by simp
  have b: "(0::int) \<le> int (Suc i) * stride c" using s by simp
  have n: "nat (int (Suc i) * stride c) = nat (int i * stride c) + nat (stride c)"
    using s by (simp add: nat_add_distrib algebra_simps nat_mult_distrib)
  have m: "min (nat (overlap c)) (nat (chunk_size c)) = nat (overlap c)"
    using assms by simp
  have d: "nat (chunk_size c) - nat (stride c) = nat (overlap c)"
    using assms by (simp add: stride_def)
  show ?thesis
    unfolding chunk_tokens_window[OF a cs] chunk_tokens_window[OF b cs] n
    by (simp add: drop_take m d add.commute)
qed


text \<open>
  Claim C3, as stated, fails: with \<open>chunk_size = overlap = 4\<close> the precondition is violated,
  yet the constructor returns the chunker, chunking a text of two tokens never returns
  (it does not end with a configuration error), and chunking the empty text returns the
  empty list.
\<close>

theorem chunk_text_no_configuration_error_counterexample:
  "TextChunker_init 4 4 char_tokenizer
     = Inr \<lparr>chunk_size = 4, overlap = 4, tokenizer = char_tokenizer\<rparr>
   \<and> chunk_text \<lparr>chunk_size = 4, overlap = 4, tokenizer = char_tokenizer\<rparr> ''ab'' ''doc'' = None
   \<and> chunk_text \<lparr>chunk_size = 4, overlap = 4, tokenizer = char_tokenizer\<rparr> [] ''doc''
       = Some (Inr [])"
proof -
  have "chunk_text \<lparr>chunk_size = 4, overlap = 4, tokenizer = char_tokenizer\<rparr> ''ab'' ''doc'' = None"
    unfolding chunk_text_def by (rule chunk_loop_diverges) (simp_all add: char_tokenizer_def)
  moreover have "chunk_text \<lparr>chunk_size = 4, overlap = 4, tokenizer = char_tokenizer\<rparr> [] ''doc''
       = Some (Inr [])"
    unfolding chunk_text_def by (subst chunk_loop.simps) (simp add: char_tokenizer_def)
  ultimately show ?thesis by (simp add: TextChunker_init_def)
qed

text \<open>
  Claim C3, amended: the chunker checks no precondition and raises no configuration error.
  The constructor always returns the object. Whenever \<open>overlap < chunk_size\<close>, which
  covers every valid input \<open>0 \<le> overlap < chunk_size\<close>, chunking terminates and returns
  its chunks. When \<open>overlap \<ge> chunk_size\<close>, chunking a text with at least one token never
  returns, and chunking a text without tokens returns the empty list.
\<close>

theorem chunk_text_returns_iff_positive_stride:
  "TextChunker_init cs ov tk = Inr \<lparr>chunk_size = cs, overlap = ov, tokenizer = tk\<rparr>
   \<and> (overlap c < chunk_size c \<longrightarrow> (\<exists>chunks. chunk_text c text sid = Some (Inr chunks)))
   \<and> (chunk_size c \<le> overlap c \<and> encode (tokenizer c) text \<noteq> [] \<longrightarrow>
        chunk_text c text sid = None)
   \<and> (encode (tokenizer c) text = [] \<longrightarrow> chunk_text c text sid = Some (Inr []))"
proof -
  have "overlap c < chunk_size c \<longrightarrow> (\<exists>chunks. chunk_text c text sid = Some (Inr chunks))"
    using chunk_text_closed by blast
  moreover have "chunk_size c \<le> overlap c \<and> encode (tokenizer c) text \<noteq> [] \<longrightarrow>
        chunk_text c text sid = None"
    unfolding chunk_text_def by (auto intro: chunk_loop_diverges)
  moreover have "encode (tokenizer c) text = [] \<longrightarrow> chunk_text c text sid = Some (Inr [])"
    unfolding chunk_text_def by (subst chunk_loop.simps) simp
  ultimately show ?thesis by (simp add: TextChunker_init_def)
qed

text \<open>
  Witness for C3: a valid chunker returns; one with \<open>overlap > chunk_size\<close> does not
  return on \<open>abc\<close> and returns no chunks on the empty text.
\<close>

theorem chunk_text_returns_iff_positive_stride_witness:
  "(\<exists>chunks. chunk_text \<lparr>chunk_size = 4, overlap = 2, tokenizer = char_tokenizer\<rparr> ''abc'' ''doc''
        = Some (Inr chunks))
   \<and> chunk_text \<lparr>chunk_size = 2, overlap = 3, tokenizer = char_tokenizer\<rparr> ''abc'' ''doc'' = None
   \<and> chunk_text \<lparr>chunk_size = 2, overlap = 3, tokenizer = char_tokenizer\<rparr> [] ''doc'' = Some (Inr [])"
  using chunk_text_returns_iff_positive_stride
          [of 4 2 char_tokenizer "\<lparr>chunk_size = 4, overlap = 2, tokenizer = char_tokenizer\<rparr>"
              "''abc''" "''doc''"]
        chunk_text_returns_iff_positive_stride
          [of 2 3 char_tokenizer "\<lparr>chunk_size = 2, overlap = 3, tokenizer = char_tokenizer\<rparr>"
              "''abc''" "''doc''"]
        chunk_text_returns_iff_positive_stride
          [of 2 3 char_tokenizer "\<lparr>chunk_size = 2, overlap = 3, tokenizer = char_tokenizer\<rparr>"
              "[]" "''doc''"]
  by (simp add: char_tokenizer_def)

text \<open>
  Claim C8, as stated, fails: with \<open>chunk_size = 4\<close>, \<open>overlap = 3\<close> and five tokens, the
  chunks are \<open>abcd\<close>, \<open>bcde\<close>, \<open>cde\<close>, \<open>de\<close>, \<open>e\<close>. The third and fourth chunks, neither
  of them the final one, share two tokens and not three, and three chunks besides the
  final one are shorter than \<open>chunk_size\<close>.
\<close>

theorem consecutive_overlap_counterexample:
  "chunk_text \<lparr>chunk_size = 4, overlap = 3, tokenizer = char_tokenizer\<rparr> ''abcde'' ''doc''
     = Some (Inr
        [\<lparr>chunk_id = ''doc_chunk_001'', source_id = ''doc'', text' = ''abcd'', token_count = 4,
           start_char = 0, end_char = 4, similarity_score = None\<rparr>,
         \<lparr>chunk_id = ''doc_chunk_002'', source_id = ''doc'', text' = ''bcde'', token_count = 4,
           start_char = 1, end_char = 5, similarity_score = None\<rparr>,
         \<lparr>chunk_id = ''doc_chunk_003'', source_id = ''doc'', text' = ''cde'', token_count = 3,
           start_char = 2, end_char = 5, similarity_score = None\<rparr>,
         \<lparr>chunk_id = ''doc_chunk_004'', source_id = ''doc'', text' = ''de'', token_count = 2,
           start_char = 3, end_char = 5, similarity_score = None\<rparr>,
         \<lparr>chunk_id = ''doc_chunk_005'', source_id = ''doc'', text' = ''e'', token_count = 1,
           start_char = 4, end_char = 5, similarity_score = None\<rparr>])
   \<and> \<not> spec_overlap_exact [''abcd'', ''bcde'', ''cde'', ''de'', ''e''] 3"
  by code_simp

text \<open>
  Claim C8, amended: for \<open>0 \<le> overlap < chunk_size\<close> the chunks are built, in order and
  numbered from 1, from the window starts \<open>0, s, 2s, ...\<close> with \<open>s = chunk_size - overlap\<close>,
  a start being used exactly when it is below the token count; each window holds the (up to)
  \<open>chunk_size\<close> tokens from its start; and the tokens of a chunk after its first \<open>s\<close> are
  exactly the first \<open>overlap\<close> tokens of the next chunk, that is, the whole next chunk when
  it holds fewer than \<open>overlap\<close> tokens. So consecutive chunks overlap by exactly
  \<open>overlap\<close> tokens unless the later chunk is shorter than \<open>overlap\<close>, which can happen
  for several trailing chunks. With \<open>chunk_size = 10\<close>, \<open>overlap = 3\<close> and 25 tokens the
  starts are 0, 7, 14, 21 and the last chunk holds 4 tokens.
\<close>

theorem chunk_starts_and_overlap:
  assumes "0 \<le> overlap c" "overlap c < chunk_size c"
    and "tokens = encode (tokenizer c) text"
  shows "chunk_text c text sid =
           Some (Inr (map (\<lambda>i. make_chunk c tokens sid (spec_window_starts c tokens ! i) (Suc i))
                        [0..<length (spec_window_starts c tokens)]))
    \<and> (\<forall>i. i < length (spec_window_starts c tokens)
            \<longleftrightarrow> int i * stride c < int (length tokens))
    \<and> (\<forall>i<length (spec_window_starts c tokens).
          spec_window_starts c tokens ! i = int i * stride c
          \<and> chunk_tokens c tokens (int i * stride c)
              = take (nat (chunk_size c)) (drop (nat (int i * stride c)) tokens))
    \<and> (\<forall>i. Suc i < length (spec_window_starts c tokens) \<longrightarrow>
          drop (nat (stride c)) (chunk_tokens c tokens (int i * stride c))
            = take (nat (overlap c)) (chunk_tokens c tokens (int (Suc i) * stride c)))
    \<and> (chunk_size c = 10 \<and> overlap c = 3 \<and> length tokens = 25 \<longrightarrow>
          spec_window_starts c tokens = [0, 7, 14, 21]
          \<and> chunk_text c text sid =
               Some (Inr [make_chunk c tokens sid 0 1, make_chunk c tokens sid 7 2,
                          make_chunk c tokens sid 14 3, make_chunk c tokens sid 21 4])
          \<and> token_count (make_chunk c tokens sid 21 4) = 4)"
proof -
  have s: "0 < stride c" using assms by (simp add: stride_def)
  have cs: "0 \<le> chunk_size c" using assms by simp
  have run: "chunk_text c text sid =
           Some (Inr (map (\<lambda>i. make_chunk c tokens sid (spec_window_starts c tokens ! i) (Suc i))
                        [0..<length (spec_window_starts c tokens)]))"
    unfolding assms(3) by (rule chunk_text_starts[OF assms(2)])
  have bound: "\<forall>i. i < length (spec_window_starts c tokens)
            \<longleftrightarrow> int i * stride c < int (length tokens)"
    using spec_window_starts_bound[OF s] by blast
  have win: "\<forall>i<length (spec_window_starts c tokens).
          spec_window_starts c tokens ! i = int i * stride c
          \<and> chunk_tokens c tokens (int i * stride c)
              = take (nat (chunk_size c)) (drop (nat (int i * stride c)) tokens)"
  proof (intro allI impI conjI)
    fix i assume "i < length (spec_window_starts c tokens)"
    then show "spec_window_starts c tokens ! i = int i * stride c"
      by (rule spec_window_starts_nth)
    have "(0::int) \<le> int i * stride c" using s by simp
    then show "chunk_tokens c tokens (int i * stride c)
              = take (nat (chunk_size c)) (drop (nat (int i * stride c)) tokens)"
      using cs by (rule chunk_tokens_window)
  qed
  have ov: "\<forall>i. Suc i < length (spec_window_starts c tokens) \<longrightarrow>
          drop (nat (stride c)) (chunk_tokens c tokens (int i * stride c))
            = take (nat (overlap c)) (chunk_tokens c tokens (int (Suc i) * stride c))"
    using overlap_of_consecutive_windows[OF assms(1,2)] by blast
  have ex: "chunk_size c = 10 \<and> overlap c = 3 \<and> length tokens = 25 \<longrightarrow>
          spec_window_starts c tokens = [0, 7, 14, 21]
          \<and> chunk_text c text sid =
               Some (Inr [make_chunk c tokens sid 0 1, make_chunk c tokens sid 7 2,
                          make_chunk c tokens sid 14 3, make_chunk c tokens sid 21 4])
          \<and> token_count (make_chunk c tokens sid 21 4) = 4"
  proof (intro impI)
    assume h: "chunk_size c = 10 \<and> overlap c = 3 \<and> length tokens = 25"
    have up: "[0..<4] = [0, Suc 0, 2, 3]" by (simp add: upt_rec)
    have st: "spec_window_starts c tokens = [0, 7, 14, 21]"
      using h by (simp add: spec_window_starts_def stride_def up)
    have tc: "token_count (make_chunk c tokens sid 21 4) = 4"
      using h chunk_tokens_window[of 21 c tokens] by (simp add: make_chunk_def)
    show "spec_window_starts c tokens = [0, 7, 14, 21]
          \<and> chunk_text c text sid =
               Some (Inr [make_chunk c tokens sid 0 1, make_chunk c tokens sid 7 2,
                          make_chunk c tokens sid 14 3, make_chunk c tokens sid 21 4])
          \<and> token_count (make_chunk c tokens sid 21 4) = 4"
      using st tc run by (simp add: up numeral_2_eq_2 numeral_3_eq_3 eval_nat_numeral)
  qed
  from run bound win ov ex show ?thesis by blast
qed

text \<open>
  Witness for C8: the 25-token example, run with one token per character.
\<close>

theorem chunk_starts_and_overlap_witness:
  "chunk_text \<lparr>chunk_size = 10, overlap = 3, tokenizer = char_tokenizer\<rparr>
       ''abcdefghijklmnopqrstuvwxy'' ''doc''
     = Some (Inr (map (\<lambda>(st, k). make_chunk
                   \<lparr>chunk_size = 10, overlap = 3, tokenizer = char_tokenizer\<rparr>
                   ''abcdefghijklmnopqrstuvwxy'' ''doc'' st k) [(0, 1), (7, 2), (14, 3), (21, 4)]))
   \<and> text' (make_chunk \<lparr>chunk_size = 10, overlap = 3, tokenizer = char_tokenizer\<rparr>
                   ''abcdefghijklmnopqrstuvwxy'' ''doc'' 21 4) = ''vwxy''"
proof -
  have 1: "(0::int) \<le> overlap \<lparr>chunk_size = 10, overlap = 3, tokenizer = char_tokenizer\<rparr>"
    by simp
  have 2: "overlap \<lparr>chunk_size = 10, overlap = 3, tokenizer = char_tokenizer\<rparr>
        < chunk_size \<lparr>chunk_size = 10, overlap = 3, tokenizer = char_tokenizer\<rparr>"
    by simp
  have 3: "''abcdefghijklmnopqrstuvwxy''
      = encode (tokenizer \<lparr>chunk_size = 10, overlap = 3, tokenizer = char_tokenizer\<rparr>)
          ''abcdefghijklmnopqrstuvwxy''"
    by (simp add: char_tokenizer_def)
  have 4: "text' (make_chunk \<lparr>chunk_size = 10, overlap = 3, tokenizer = char_tokenizer\<rparr>
                   ''abcdefghijklmnopqrstuvwxy'' ''doc'' 21 4) = ''vwxy''"
    by code_simp
  have 5: "chunk_size \<lparr>chunk_size = 10, overlap = 3, tokenizer = char_tokenizer\<rparr> = 10
      \<and> overlap \<lparr>chunk_size = 10, overlap = 3, tokenizer = char_tokenizer\<rparr> = 3
      \<and> length ''abcdefghijklmnopqrstuvwxy'' = 25"
    by simp
  note ex = chunk_starts_and_overlap[OF 1 2 3, of "''doc''",
      THEN conjunct2, THEN conjunct2, THEN conjunct2, THEN conjunct2, THEN mp, OF 5]
  from ex 4 show ?thesis by simp
qed

text \<open>
  Claim C9, as stated, fails: with \<open>chunk_size = 4\<close> and \<open>overlap = 2\<close>, a text of three
  tokens, fewer than \<open>chunk_size\<close>, yields two chunks, and the empty text yields none.
\<close>

theorem short_text_two_chunks_counterexample:
  "int (length (encode (tokenizer \<lparr>chunk_size = 4, overlap = 2, tokenizer = char_tokenizer\<rparr>)
           ''abc''))
     < chunk_size \<lparr>chunk_size = 4, overlap = 2, tokenizer = char_tokenizer\<rparr>
   \<and> chunk_text \<lparr>chunk_size = 4, overlap = 2, tokenizer = char_tokenizer\<rparr> ''abc'' ''doc''
     = Some (Inr
        [\<lparr>chunk_id = ''doc_chunk_001'', source_id = ''doc'', text' = ''abc'', token_count = 3,
           start_char = 0, end_char = 3, similarity_score = None\<rparr>,
         \<lparr>chunk_id = ''doc_chunk_002'', source_id = ''doc'', text' = ''c'', token_count = 1,
           start_char = 2, end_char = 3, similarity_score = None\<rparr>])
   \<and> chunk_text \<lparr>chunk_size = 4, overlap = 2, tokenizer = char_tokenizer\<rparr> [] ''doc''
     = Some (Inr [])"
  by code_simp

text \<open>
  Claim C9, amended: for \<open>0 \<le> overlap < chunk_size\<close>, chunking yields exactly one chunk if
  and only if the token count is at least 1 and at most \<open>chunk_size - overlap\<close>; that
  chunk contains all of the text's tokens and has chunk number 1.
\<close>

theorem single_chunk_iff_within_stride:
  assumes "0 \<le> overlap c" "overlap c < chunk_size c"
    and "tokens = encode (tokenizer c) text"
  shows "((\<exists>ch. chunk_text c text sid = Some (Inr [ch]))
            \<longleftrightarrow> 0 < length tokens \<and> int (length tokens) \<le> chunk_size c - overlap c)
    \<and> (0 < length tokens \<and> int (length tokens) \<le> chunk_size c - overlap c \<longrightarrow>
          chunk_text c text sid = Some (Inr [make_chunk c tokens sid 0 1])
          \<and> chunk_tokens c tokens 0 = tokens
          \<and> token_count (make_chunk c tokens sid 0 1) = length tokens
          \<and> chunk_id (make_chunk c tokens sid 0 1) = sid @ ''_chunk_001'')"
proof -
  let ?ws = "spec_window_starts c tokens"
  have s: "0 < stride c" using assms by (simp add: stride_def)
  have run: "chunk_text c text sid =
           Some (Inr (map (\<lambda>i. make_chunk c tokens sid (?ws ! i) (Suc i)) [0..<length ?ws]))"
    unfolding assms(3) by (rule chunk_text_starts[OF assms(2)])
  have b0: "0 < length ?ws \<longleftrightarrow> 0 < length tokens"
    using spec_window_starts_bound[OF s, of 0 tokens] by simp
  have b1: "1 < length ?ws \<longleftrightarrow> stride c < int (length tokens)"
    using spec_window_starts_bound[OF s, of 1 tokens] by simp
  have one: "length ?ws = 1 \<longleftrightarrow> 0 < length tokens \<and> int (length tokens) \<le> stride c"
    using b0 b1 by linarith
  have iff: "(\<exists>ch. chunk_text c text sid = Some (Inr [ch])) \<longleftrightarrow> length ?ws = 1"
  proof
    assume "\<exists>ch. chunk_text c text sid = Some (Inr [ch])"
    then obtain ch where
      "map (\<lambda>i. make_chunk c tokens sid (?ws ! i) (Suc i)) [0..<length ?ws] = [ch]"
      using run by auto
    then have "length (map (\<lambda>i. make_chunk c tokens sid (?ws ! i) (Suc i)) [0..<length ?ws])
        = length [ch]" by (rule arg_cong)
    then show "length ?ws = 1" by simp
  next
    assume "length ?ws = 1"
    then show "\<exists>ch. chunk_text c text sid = Some (Inr [ch])" using run by simp
  qed
  have single: "0 < length tokens \<and> int (length tokens) \<le> chunk_size c - overlap c \<longrightarrow>
          chunk_text c text sid = Some (Inr [make_chunk c tokens sid 0 1])
          \<and> chunk_tokens c tokens 0 = tokens
          \<and> token_count (make_chunk c tokens sid 0 1) = length tokens
          \<and> chunk_id (make_chunk c tokens sid 0 1) = sid @ ''_chunk_001''"
  proof (intro impI)
    assume h: "0 < length tokens \<and> int (length tokens) \<le> chunk_size c - overlap c"
    then have l1: "length ?ws = 1" using one by (simp add: stride_def)
    have n0: "?ws ! 0 = 0" using spec_window_starts_nth[of 0 c tokens] l1 by simp
    have r: "chunk_text c text sid = Some (Inr [make_chunk c tokens sid 0 1])"
      using run l1 n0 by simp
    have "chunk_tokens c tokens 0 = take (nat (chunk_size c)) (drop (nat 0) tokens)"
      using assms by (intro chunk_tokens_window) simp_all
    moreover have "length tokens \<le> nat (chunk_size c)" using h assms(1) by linarith
    ultimately have t: "chunk_tokens c tokens 0 = tokens" by simp
    have f: "format_03d 1 = ''001''" by code_simp
    show "chunk_text c text sid = Some (Inr [make_chunk c tokens sid 0 1])
          \<and> chunk_tokens c tokens 0 = tokens
          \<and> token_count (make_chunk c tokens sid 0 1) = length tokens
          \<and> chunk_id (make_chunk c tokens sid 0 1) = sid @ ''_chunk_001''"
      using r t f by (simp add: make_chunk_def)
  qed
  from iff one single show ?thesis by (simp add: stride_def)
qed

text \<open>
  Witness for C9: three tokens with \<open>chunk_size = 4\<close> and \<open>overlap = 1\<close>.
\<close>

theorem single_chunk_iff_within_stride_witness:
  "chunk_text \<lparr>chunk_size = 4, overlap = 1, tokenizer = char_tokenizer\<rparr> ''abc'' ''doc''
     = Some (Inr [\<lparr>chunk_id = ''doc_chunk_001'', source_id = ''doc'', text' = ''abc'',
                   token_count = 3, start_char = 0, end_char = 3, similarity_score = None\<rparr>])"
proof -
  let ?c = "\<lparr>chunk_size = 4, overlap = 1, tokenizer = char_tokenizer\<rparr>"
  have 1: "0 \<le> overlap ?c" by simp
  have 2: "overlap ?c < chunk_size ?c" by simp
  have 3: "''abc'' = encode (tokenizer ?c) ''abc''" by (simp add: char_tokenizer_def)
  have 4: "0 < length ''abc'' \<and> int (length ''abc'') \<le> chunk_size ?c - overlap ?c" by simp
  have 5: "make_chunk ?c ''abc'' ''doc'' 0 1
      = \<lparr>chunk_id = ''doc_chunk_001'', source_id = ''doc'', text' = ''abc'',
                   token_count = 3, start_char = 0, end_char = 3, similarity_score = None\<rparr>"
    by code_simp
  note one = single_chunk_iff_within_stride[OF 1 2 3, of "''doc''", THEN conjunct2, THEN mp, OF 4]
  from one 5 show ?thesis by simp
qed

section \<open>Properties of the vector store\<close>

text \<open>
  Claim C4, as stated, fails: a stored pair with two vectors and one metadata entry is
  loaded without an error, the loaded store has two vectors and one metadata entry, and it
  serves a search.
\<close>

theorem load_accepts_mismatched_counts_counterexample:
  "load \<lparr>faiss_file = \<lparr>d = 1, xb = [[1], [0]]\<rparr>,
         metadata_file = [mk_chunk ''doc_chunk_001'' ''a'']\<rparr> (VectorStore_init 384)
     = Inr \<lparr>dimension = 1, index = \<lparr>d = 1, xb = [[1], [0]]\<rparr>,
            chunk_metadata = [mk_chunk ''doc_chunk_001'' ''a'']\<rparr>
   \<and> ntotal \<lparr>d = 1, xb = [[1], [0]]\<rparr> = 2
   \<and> length [mk_chunk ''doc_chunk_001'' ''a''] = 1
   \<and> search \<lparr>dimension = 1, index = \<lparr>d = 1, xb = [[1], [0]]\<rparr>,
              chunk_metadata = [mk_chunk ''doc_chunk_001'' ''a'']\<rparr> [1] 1
     = Inr [(mk_chunk ''doc_chunk_001'' ''a'')\<lparr>similarity_score := Some 1\<rparr>]"
  by code_simp

text \<open>
  Claim C4, amended: loading performs no validation and never rejects a stored pair. It
  restores the index, its dimension and the metadata exactly as stored, so after a load the
  metadata count equals the vector count exactly when the two stored counts agree; what
  \<open>save\<close> wrote is loaded back unchanged.
\<close>

theorem load_restores_stored_pair:
  "load p vs = Inr \<lparr>dimension = d (faiss_file p), index = faiss_file p,
                    chunk_metadata = metadata_file p\<rparr>
   \<and> ((\<exists>vs'. load p vs = Inr vs' \<and> length (chunk_metadata vs') = ntotal (index vs'))
        \<longleftrightarrow> length (metadata_file p) = ntotal (faiss_file p))
   \<and> load (save vs) vs0 = Inr (vs\<lparr>dimension := d (index vs)\<rparr>)"
  by (cases vs; cases vs0) (auto simp: load_def save_def)

text \<open>
  A search that returns hands back one entry for each of the \<open>k\<close> labels of the index,
  however many vectors the index holds.
\<close>

lemma search_rows_length:
  "search_rows meta rows = Inr results \<Longrightarrow> length results = length rows"
proof (induction rows arbitrary: results)
  case Nil
  then show ?case by simp
next
  case (Cons row rows)
  obtain score idx where row: "row = (score, idx)" by (cases row)
  from Cons.prems obtain chunk rest where
    "search_rows meta rows = Inr rest" "results = chunk\<lparr>similarity_score := Some score\<rparr> # rest"
    unfolding row by (auto split: sum.splits)
  with Cons.IH show ?case by simp
qed

lemma search_length:
  assumes "search vs q k = Inr results"
  shows "length results = nat k"
proof -
  from assms obtain scores indices where
    f: "faiss_search (index vs) q k = Inr (scores, indices)"
    and r: "search_rows (chunk_metadata vs) (zip scores indices) = Inr results"
    unfolding search_def by (auto split: sum.splits)
  from f have "length scores = nat k" "length indices = nat k"
    unfolding faiss_search_def Let_def by (auto split: if_splits)
  with search_rows_length[OF r] show ?thesis by simp
qed

text \<open>
  Claim C5 at its failing input: a store of two chunks searched with \<open>k = 3\<close>. The index
  pads the missing third result with the label \<open>-1\<close>, which the loop reads as the index of
  the last metadata entry: the result has three entries, the second chunk twice, the copy
  scored with the lowest float. On an empty store the same label raises \<open>IndexError\<close>.
  The claim says that the result is exactly the stored entries, without duplicates.
\<close>

theorem search_k_exceeds_index_size:
  "search \<lparr>dimension = 2, index = \<lparr>d = 2, xb = [[1, 0], [0, 1]]\<rparr>,
           chunk_metadata = [mk_chunk ''doc_chunk_001'' ''a'', mk_chunk ''doc_chunk_002'' ''b'']\<rparr>
      [1, 0] 3
     = Inr [(mk_chunk ''doc_chunk_001'' ''a'')\<lparr>similarity_score := Some 1\<rparr>,
            (mk_chunk ''doc_chunk_002'' ''b'')\<lparr>similarity_score := Some 0\<rparr>,
            (mk_chunk ''doc_chunk_002'' ''b'')\<lparr>similarity_score := Some FLT_LOWEST\<rparr>]
   \<and> search (VectorStore_init 2) [1, 0] 3 = Inl IndexError"
  by code_simp

section \<open>Properties of citation validation and precision\<close>

text \<open>
  What a successful match of a literal or of a repetition tells, and when the greedy first
  attempt of a repetition succeeds.
\<close>

lemma first_some_mapD:
  "first_some (map f xs) = Some y \<Longrightarrow> \<exists>x\<in>set xs. f x = Some y"
  by (induction xs) (auto split: option.splits)

lemma re_match_LitD:
  assumes "re_match (Lit c # items) s = Some (gs, rest)"
  shows "\<exists>xs. s = c # xs \<and> re_match items xs = Some (gs, rest)"
  using assms by (cases s) (auto split: if_splits)

lemma re_match_RepD:
  assumes "re_match (Rep p lo cap # items) s = Some (gs, rest)"
  shows "\<exists>n gs'. lo \<le> n \<and> n \<le> length (takeWhile p s)
           \<and> re_match items (drop n s) = Some (gs', rest)
           \<and> gs = (if cap then take n s # gs' else gs')"
proof -
  let ?F = "\<lambda>n. case re_match items (drop n s) of None \<Rightarrow> None
             | Some (groups, rest) \<Rightarrow> Some (if cap then take n s # groups else groups, rest)"
  from assms have "first_some (map ?F (rev [lo..<Suc (length (takeWhile p s))])) = Some (gs, rest)"
    by simp
  then have "\<exists>n\<in>set (rev [lo..<Suc (length (takeWhile p s))]). ?F n = Some (gs, rest)"
    by (rule first_some_mapD)
  then obtain n where n: "n \<in> set (rev [lo..<Suc (length (takeWhile p s))])"
    and m: "?F n = Some (gs, rest)"
    by blast
  from m obtain gs' where g: "re_match items (drop n s) = Some (gs', rest)"
    "gs = (if cap then take n s # gs' else gs')"
    by (cases "re_match items (drop n s)") auto
  from n have "lo \<le> n \<and> n \<le> length (takeWhile p s)" by auto
  with g show ?thesis by blast
qed

lemma re_match_Rep_greedy:
  assumes "lo \<le> length (takeWhile p s)"
    and "re_match items (drop (length (takeWhile p s)) s) = Some (gs', rest)"
  shows "re_match (Rep p lo cap # items) s
       = Some (if cap then take (length (takeWhile p s)) s # gs' else gs', rest)"
proof -
  have "rev [lo..<Suc (length (takeWhile p s))]
      = length (takeWhile p s) # rev [lo..<length (takeWhile p s)]"
    using assms(1) by simp
  then show ?thesis using assms(2) by simp
qed

lemma take_within_takeWhile:
  assumes "n \<le> length (takeWhile p s)"
  shows "list_all p (take n s)"
proof -
  have "take n s = take n (takeWhile p s @ dropWhile p s)" by simp
  also have "\<dots> = take n (takeWhile p s)" using assms by (simp del: takeWhile_dropWhile_id)
  finally have "set (take n s) \<subseteq> set (takeWhile p s)" by (simp add: set_take_subset)
  then show ?thesis by (auto simp: list_all_iff dest: set_takeWhileD)
qed

text \<open>
  Every match of \<open>CITATION_PATTERN\<close> has exactly two groups, both tokens.
\<close>

lemma citation_match_groups:
  assumes "re_match CITATION_PATTERN s = Some (gs, rest)"
  shows "\<exists>a b. gs = [a, b] \<and> is_token a \<and> is_token b"
proof -
  from assms obtain s1 where
    1: "re_match [Rep is_word_char 1 True, Lit (CHR '',''), Rep is_space 0 False,
                  Rep is_word_char 1 True, Lit (CHR '')'')] s1 = Some (gs, rest)"
    unfolding CITATION_PATTERN_def by (blast dest: re_match_LitD)
  from re_match_RepD[OF 1] obtain n g2 where n: "1 \<le> n" "n \<le> length (takeWhile is_word_char s1)"
    and 2: "re_match [Lit (CHR '',''), Rep is_space 0 False,
                  Rep is_word_char 1 True, Lit (CHR '')'')] (drop n s1) = Some (g2, rest)"
    and gs: "gs = take n s1 # g2"
    by auto
  from re_match_LitD[OF 2] obtain s2 where
    3: "re_match [Rep is_space 0 False, Rep is_word_char 1 True, Lit (CHR '')'')] s2
          = Some (g2, rest)"
    by blast
  from re_match_RepD[OF 3] obtain k where
    4: "re_match [Rep is_word_char 1 True, Lit (CHR '')'')] (drop k s2) = Some (g2, rest)"
    by auto
  from re_match_RepD[OF 4] obtain j g4 where j: "1 \<le> j"
      "j \<le> length (takeWhile is_word_char (drop k s2))"
    and 5: "re_match [Lit (CHR '')'')] (drop j (drop k s2)) = Some (g4, rest)"
    and g2: "g2 = take j (drop k s2) # g4"
    by auto
  from re_match_LitD[OF 5] have g4: "g4 = []" by auto
  have "take n s1 \<noteq> []" using n by (cases s1) auto
  then have a: "is_token (take n s1)"
    using take_within_takeWhile[OF n(2)] by (simp add: is_token_def)
  have "take j (drop k s2) \<noteq> []" using j by (cases "drop k s2") auto
  then have b: "is_token (take j (drop k s2))"
    using take_within_takeWhile[OF j(2)] by (simp add: is_token_def)
  from gs g2 g4 a b show ?thesis by simp
qed

lemma findall_citation_groups:
  "m \<in> set (re_findall CITATION_PATTERN s) \<Longrightarrow> \<exists>a b. m = [a, b] \<and> is_token a \<and> is_token b"
proof (induction CITATION_PATTERN s rule: re_findall.induct)
  case 1
  then show ?case
    by (auto split: option.splits dest: citation_match_groups citation_match_groups[OF sym])
next
  case (2 x xs)
  show ?case
  proof (cases "re_match CITATION_PATTERN (x # xs)")
    case None
    with 2 show ?thesis by simp
  next
    case (Some r)
    obtain gs rest where r: "r = (gs, rest)" by (cases r)
    show ?thesis
    proof (cases "m = gs")
      case True
      with Some r show ?thesis by (auto dest: citation_match_groups)
    next
      case False
      show ?thesis
      proof (cases "length rest < Suc (length xs)")
        case True
        with False Some r "2.prems" have "m \<in> set (re_findall CITATION_PATTERN rest)" by simp
        with "2.hyps"(2)[OF Some r[symmetric] True] show ?thesis by blast
      next
        case F: False
        with False Some r "2.prems" have "m \<in> set (re_findall CITATION_PATTERN xs)" by simp
        with "2.hyps"(3)[OF Some r[symmetric] F] show ?thesis by blast
      qed
    qed
  qed
qed


text \<open>
  A rendered citation re-parses: \<open>PARSE_PATTERN\<close> matches it at its first character
  with the two tokens as groups, and stripping a token leaves it unchanged.
\<close>

lemma word_char_facts:
  "is_word_char c \<Longrightarrow> c \<noteq> CHR '','' \<and> c \<noteq> CHR '')'' \<and> \<not> is_space c"
  by (auto simp: is_word_char_def is_space_def)

lemma token_facts:
  assumes "is_token w"
  shows "w \<noteq> []" and "\<forall>c\<in>set w. c \<noteq> CHR '',''" and "\<forall>c\<in>set w. c \<noteq> CHR '')''"
    and "\<not> is_space (hd w)" and "\<not> is_space (last w)"
proof -
  show ne: "w \<noteq> []" using assms by (simp add: is_token_def)
  have all: "\<forall>c\<in>set w. is_word_char c" using assms by (simp add: is_token_def list_all_iff)
  then show "\<forall>c\<in>set w. c \<noteq> CHR '',''" "\<forall>c\<in>set w. c \<noteq> CHR '')''"
    using word_char_facts by blast+
  show "\<not> is_space (hd w)" using all ne word_char_facts by (meson hd_in_set)
  show "\<not> is_space (last w)" using all ne word_char_facts by (meson last_in_set)
qed

lemma strip_token:
  assumes "is_token w"
  shows "strip w = w"
proof -
  note t = token_facts[OF assms]
  have 1: "dropWhile is_space w = w" using t(4) by (simp add: dropWhile_eq_self_iff)
  have "hd (rev w) = last w" using t(1) by (simp add: hd_rev)
  then have 2: "dropWhile is_space (rev w) = rev w"
    using t(5) by (simp add: dropWhile_eq_self_iff)
  show ?thesis unfolding strip_def 1 2 by simp
qed

lemma takeWhile_prefix:
  assumes "\<forall>c\<in>set a. p c" and "\<not> p x"
  shows "takeWhile p (a @ x # t) = a"
  using assms by (simp add: takeWhile_append2)

lemma parse_rendered:
  assumes "is_token a" "is_token b"
  shows "re_match PARSE_PATTERN (render_citation [a, b]) = Some ([a, b], [])"
proof -
  note ta = token_facts[OF assms(1)] and tb = token_facts[OF assms(2)]
  let ?s4 = "b @ [CHR '')'']"
  let ?s3 = "CHR '' '' # ?s4"
  let ?s1 = "a @ CHR '','' # ?s3"
  let ?i4 = "[Lit (CHR '')'')]"
  let ?i3 = "Rep (\<lambda>c. c \<noteq> CHR '')'') 1 True # ?i4"
  let ?i2 = "Rep is_space 0 False # ?i3"
  let ?i1 = "Lit (CHR '','') # ?i2"
  have r: "render_citation [a, b] = CHR ''('' # ?s1"
    by (simp add: render_citation_def)
  have la: "1 \<le> length a" using ta(1) by (cases a) simp_all
  have lb: "1 \<le> length b" using tb(1) by (cases b) simp_all
  \<comment> \<open>the second group and the closing parenthesis\<close>
  have tw4: "takeWhile (\<lambda>c. c \<noteq> CHR '')'') ?s4 = b"
    using takeWhile_prefix[of b "\<lambda>c. c \<noteq> CHR '')''" "CHR '')''" "[]"] tb(3) by simp
  have "re_match ?i4 (drop (length b) ?s4) = Some ([], [])" by simp
  then have p4: "re_match ?i4 (drop (length (takeWhile (\<lambda>c. c \<noteq> CHR '')'') ?s4)) ?s4)
      = Some ([], [])"
    unfolding tw4 .
  have l4: "1 \<le> length (takeWhile (\<lambda>c. c \<noteq> CHR '')'') ?s4)" unfolding tw4 by (rule lb)
  have m4: "re_match ?i3 ?s4 = Some ([b], [])"
    using re_match_Rep_greedy[OF l4 p4, of True] unfolding tw4 by (simp del: re_match.simps)
  \<comment> \<open>the blank after the comma\<close>
  have "takeWhile is_space ?s4 = []" using tb(1,4) by (cases b) auto
  then have tw3: "takeWhile is_space ?s3 = [CHR '' '']"
    by (simp add: is_space_def)
  have "re_match ?i3 (drop (length [CHR '' '']) ?s3) = Some ([b], [])"
    using m4 by (simp del: re_match.simps)
  then have p3: "re_match ?i3 (drop (length (takeWhile is_space ?s3)) ?s3) = Some ([b], [])"
    unfolding tw3 .
  have m3: "re_match ?i2 ?s3 = Some ([b], [])"
    using re_match_Rep_greedy[OF _ p3, of 0 False] by (simp del: re_match.simps)
  have m2: "re_match ?i1 (CHR '','' # ?s3) = Some ([b], [])"
    using m3 by (simp del: re_match.simps add: re_match.simps(2))
  \<comment> \<open>the first group\<close>
  have tw1: "takeWhile (\<lambda>c. c \<noteq> CHR '','') ?s1 = a"
    using takeWhile_prefix[of a "\<lambda>c. c \<noteq> CHR '',''" "CHR '',''"] ta(2) by simp
  have "re_match ?i1 (drop (length a) ?s1) = Some ([b], [])"
    using m2 by (simp del: re_match.simps)
  then have p1: "re_match ?i1 (drop (length (takeWhile (\<lambda>c. c \<noteq> CHR '','') ?s1)) ?s1)
      = Some ([b], [])"
    unfolding tw1 .
  have l1: "1 \<le> length (takeWhile (\<lambda>c. c \<noteq> CHR '','') ?s1)" unfolding tw1 by (rule la)
  have m1: "re_match (Rep (\<lambda>c. c \<noteq> CHR '','') 1 True # ?i1) ?s1 = Some ([a, b], [])"
    using re_match_Rep_greedy[OF l1 p1, of True] unfolding tw1 by (simp del: re_match.simps)
  show ?thesis unfolding r PARSE_PATTERN_def
    using m1 by (simp del: re_match.simps add: re_match.simps(2))
qed

lemma search_rendered:
  assumes "is_token a" "is_token b"
  shows "re_search PARSE_PATTERN (render_citation [a, b]) = Some [a, b]"
proof -
  obtain x xs where r: "render_citation [a, b] = x # xs" by (simp add: render_citation_def)
  show ?thesis using parse_rendered[OF assms] unfolding r by simp
qed


text \<open>
  Hence both loops over the extracted citations are filters on membership of the second
  group in the retrieved ids.
\<close>

lemma classify_loop_filter:
  assumes "\<forall>m\<in>set pairs. \<exists>a b. m = [a, b] \<and> is_token a \<and> is_token b"
  shows "classify_loop ids (map render_citation pairs) valid bad
     = (valid @ map render_citation (filter (\<lambda>m. m ! 1 \<in> set ids) pairs),
        bad @ map render_citation (filter (\<lambda>m. m ! 1 \<notin> set ids) pairs))"
  using assms
proof (induction pairs arbitrary: valid bad)
  case Nil
  then show ?case by simp
next
  case (Cons m pairs)
  then obtain a b where m: "m = [a, b]" and t: "is_token a" "is_token b" by auto
  have s: "re_search PARSE_PATTERN (render_citation m) = Some [a, b]"
    unfolding m by (rule search_rendered[OF t])
  have rest: "\<forall>m\<in>set pairs. \<exists>a b. m = [a, b] \<and> is_token a \<and> is_token b"
    using Cons.prems by simp
  show ?case
    using Cons.IH[OF rest] s strip_token[OF t(2)] by (simp add: m)
qed

lemma invalid_loop_filter:
  assumes "\<forall>m\<in>set pairs. \<exists>a b. m = [a, b] \<and> is_token a \<and> is_token b"
  shows "invalid_loop ids (map render_citation pairs) bad
     = bad @ map render_citation (filter (\<lambda>m. m ! 1 \<notin> set ids) pairs)"
  using assms
proof (induction pairs arbitrary: bad)
  case Nil
  then show ?case by simp
next
  case (Cons m pairs)
  then obtain a b where m: "m = [a, b]" and t: "is_token a" "is_token b" by auto
  have s: "re_search PARSE_PATTERN (render_citation m) = Some [a, b]"
    unfolding m by (rule search_rendered[OF t])
  have rest: "\<forall>m\<in>set pairs. \<exists>a b. m = [a, b] \<and> is_token a \<and> is_token b"
    using Cons.prems by simp
  show ?case
    using Cons.IH[OF rest] s strip_token[OF t(2)] by (simp add: m)
qed

lemma classify_extracted:
  "classify_loop ids (extract_citations s) [] []
     = (map render_citation (filter (\<lambda>m. m ! 1 \<in> set ids) (re_findall CITATION_PATTERN s)),
        map render_citation (filter (\<lambda>m. m ! 1 \<notin> set ids) (re_findall CITATION_PATTERN s)))"
  unfolding extract_citations_def
  using classify_loop_filter[of "re_findall CITATION_PATTERN s" ids "[]" "[]"]
    findall_citation_groups by simp

lemma invalid_extracted:
  "invalid_loop ids (extract_citations s) []
     = map render_citation (filter (\<lambda>m. m ! 1 \<notin> set ids) (re_findall CITATION_PATTERN s))"
  unfolding extract_citations_def
  using invalid_loop_filter[of "re_findall CITATION_PATTERN s" ids "[]"]
    findall_citation_groups by simp

lemma citation_precision_fields:
  fixes r :: query_result
  defines "pairs \<equiv> re_findall CITATION_PATTERN (answer r)"
  defines "ids \<equiv> set (map chunk_id (retrieved_chunks r))"
  shows "total_citations (citation_precision r) = length pairs"
    and "valid_citations (citation_precision r) = length (filter (\<lambda>m. m ! 1 \<in> ids) pairs)"
    and "invalid (citation_precision r)
           = map render_citation (filter (\<lambda>m. m ! 1 \<notin> ids) pairs)"
    and "precision (citation_precision r)
           = (if pairs = [] then 0
              else of_nat (length (filter (\<lambda>m. m ! 1 \<in> ids) pairs)) / of_nat (length pairs))"
proof -
  have e: "extract_citations (answer r) = [] \<longleftrightarrow> pairs = []"
    by (simp add: extract_citations_def pairs_def)
  have l: "length (extract_citations (answer r)) = length pairs"
    by (simp add: extract_citations_def pairs_def)
  note c = classify_extracted[of "map chunk_id (retrieved_chunks r)" "answer r"]
  show "total_citations (citation_precision r) = length pairs"
    using e l by (simp add: citation_precision_def Let_def c)
  show "valid_citations (citation_precision r) = length (filter (\<lambda>m. m ! 1 \<in> ids) pairs)"
    using e l by (simp add: citation_precision_def Let_def c pairs_def ids_def)
  show "invalid (citation_precision r)
           = map render_citation (filter (\<lambda>m. m ! 1 \<notin> ids) pairs)"
    using e l by (simp add: citation_precision_def Let_def c pairs_def ids_def)
  show "precision (citation_precision r)
           = (if pairs = [] then 0
              else of_nat (length (filter (\<lambda>m. m ! 1 \<in> ids) pairs)) / of_nat (length pairs))"
    using e l by (simp add: citation_precision_def Let_def c pairs_def ids_def)
qed


text \<open>
  Claim C1: for every result, the loop of \<open>citation_precision\<close> puts an extracted
  citation into the valid list if and only if its chunk id (the second group of the match)
  is the id of a retrieved chunk of that result, and into the invalid list otherwise;
  \<open>enhance_answer\<close> computes the same invalid list and reports
  \<open>citation_validation_passed\<close> exactly when it is empty; the precision is
  \<open>valid / total\<close> when \<open>total > 0\<close> and \<open>0\<close> when \<open>total = 0\<close>. With the retrieved
  chunk \<open>a\<close> and an answer citing \<open>(src, a)\<close> and \<open>(src, z)\<close>: 1 valid, 1 invalid,
  precision 1/2, not passed.
\<close>

theorem citation_valid_iff_retrieved:
  "classify_loop (map chunk_id (retrieved_chunks r)) (extract_citations (answer r)) [] []
     = (map render_citation
          (filter (\<lambda>m. m ! 1 \<in> chunk_id ` set (retrieved_chunks r))
             (re_findall CITATION_PATTERN (answer r))),
        map render_citation
          (filter (\<lambda>m. m ! 1 \<notin> chunk_id ` set (retrieved_chunks r))
             (re_findall CITATION_PATTERN (answer r))))
   \<and> total_citations (citation_precision r) = length (re_findall CITATION_PATTERN (answer r))
   \<and> valid_citations (citation_precision r)
       = length (filter (\<lambda>m. m ! 1 \<in> chunk_id ` set (retrieved_chunks r))
                   (re_findall CITATION_PATTERN (answer r)))
   \<and> invalid (citation_precision r)
       = map render_citation
           (filter (\<lambda>m. m ! 1 \<notin> chunk_id ` set (retrieved_chunks r))
              (re_findall CITATION_PATTERN (answer r)))
   \<and> invalid_citations (enhance_answer gen r) = Some (invalid (citation_precision r))
   \<and> citation_validation_passed (enhance_answer gen r)
       = Some (invalid (citation_precision r) = [])
   \<and> precision (citation_precision r)
       = (if 0 < total_citations (citation_precision r)
          then of_nat (valid_citations (citation_precision r))
               / of_nat (total_citations (citation_precision r))
          else 0)
   \<and> citation_precision example_result
       = \<lparr>total_citations = 2, valid_citations = 1, invalid_citations_count = Some 1,
          precision = 1 / 2, invalid = [''(src, z)'']\<rparr>
   \<and> citation_validation_passed (enhance_answer gen example_result) = Some False
   \<and> invalid_citations (enhance_answer gen example_result) = Some [''(src, z)'']"
proof -
  note f = citation_precision_fields[of r]
  note c = classify_extracted[of "map chunk_id (retrieved_chunks r)" "answer r"]
  note i = invalid_extracted[of "map chunk_id (retrieved_chunks r)" "answer r"]
  have 1: "classify_loop (map chunk_id (retrieved_chunks r)) (extract_citations (answer r)) [] []
     = (map render_citation
          (filter (\<lambda>m. m ! 1 \<in> chunk_id ` set (retrieved_chunks r))
             (re_findall CITATION_PATTERN (answer r))),
        map render_citation
          (filter (\<lambda>m. m ! 1 \<notin> chunk_id ` set (retrieved_chunks r))
             (re_findall CITATION_PATTERN (answer r))))"
    using c by simp
  have 2: "total_citations (citation_precision r) = length (re_findall CITATION_PATTERN (answer r))"
    using f(1) .
  have 3: "valid_citations (citation_precision r)
       = length (filter (\<lambda>m. m ! 1 \<in> chunk_id ` set (retrieved_chunks r))
                   (re_findall CITATION_PATTERN (answer r)))"
    using f(2) by simp
  have 4: "invalid (citation_precision r)
       = map render_citation
           (filter (\<lambda>m. m ! 1 \<notin> chunk_id ` set (retrieved_chunks r))
              (re_findall CITATION_PATTERN (answer r)))"
    using f(3) by simp
  have 5: "invalid_citations (enhance_answer gen r) = Some (invalid (citation_precision r))"
    unfolding 4 using i by (simp add: enhance_answer_def Let_def)
  have 6: "citation_validation_passed (enhance_answer gen r)
       = Some (invalid (citation_precision r) = [])"
    unfolding 4 using i by (simp add: enhance_answer_def Let_def)
  have 7: "precision (citation_precision r)
       = (if 0 < total_citations (citation_precision r)
          then of_nat (valid_citations (citation_precision r))
               / of_nat (total_citations (citation_precision r))
          else 0)"
    unfolding 2 3 using f(4) by simp
  have 8: "citation_precision example_result
       = \<lparr>total_citations = 2, valid_citations = 1, invalid_citations_count = Some 1,
          precision = 1 / 2, invalid = [''(src, z)'']\<rparr>"
    by code_simp
  have 9: "invalid_loop (map chunk_id (retrieved_chunks example_result))
             (extract_citations (answer example_result)) [] = [''(src, z)'']"
    by code_simp
  have 10: "citation_validation_passed (enhance_answer gen example_result) = Some False"
    using 9 by (simp add: enhance_answer_def Let_def)
  have 11: "invalid_citations (enhance_answer gen example_result) = Some [''(src, z)'']"
    using 9 by (simp add: enhance_answer_def Let_def)
  from 1 2 3 4 5 6 7 8 10 11 show ?thesis by blast
qed

text \<open>
  Claim C10: for every result, \<open>citation_precision\<close> counts as total every extracted
  citation, its valid count and its invalid list are the two lists of the classification
  loop over the extracted citations, and that loop puts each extracted citation into exactly
  one of the two: the valid list holds those whose chunk id is retrieved, the invalid list
  the others, each in order of appearance. None is dropped, because every extracted citation
  re-parses under \<open>PARSE_PATTERN\<close>. So the total is the number of valid ones plus the
  number of invalid ones, and the reported precision, valid over total (0 without
  citations), lies between 0 and 1.
\<close>

theorem citation_precision_partition:
  "total_citations (citation_precision r) = length (extract_citations (answer r))
   \<and> valid_citations (citation_precision r)
       = length (fst (classify_loop (map chunk_id (retrieved_chunks r))
                        (extract_citations (answer r)) [] []))
   \<and> invalid (citation_precision r)
       = snd (classify_loop (map chunk_id (retrieved_chunks r))
                (extract_citations (answer r)) [] [])
   \<and> extract_citations (answer r)
       = map render_citation (re_findall CITATION_PATTERN (answer r))
   \<and> fst (classify_loop (map chunk_id (retrieved_chunks r)) (extract_citations (answer r)) [] [])
       = map render_citation
           (filter (\<lambda>m. m ! 1 \<in> chunk_id ` set (retrieved_chunks r))
              (re_findall CITATION_PATTERN (answer r)))
   \<and> snd (classify_loop (map chunk_id (retrieved_chunks r)) (extract_citations (answer r)) [] [])
       = map render_citation
           (filter (\<lambda>m. m ! 1 \<notin> chunk_id ` set (retrieved_chunks r))
              (re_findall CITATION_PATTERN (answer r)))
   \<and> list_all (\<lambda>cit. re_search PARSE_PATTERN cit \<noteq> None) (extract_citations (answer r))
   \<and> total_citations (citation_precision r)
       = valid_citations (citation_precision r) + length (invalid (citation_precision r))
   \<and> precision (citation_precision r)
       = (if total_citations (citation_precision r) = 0 then 0
          else of_nat (valid_citations (citation_precision r))
               / of_nat (total_citations (citation_precision r)))
   \<and> 0 \<le> precision (citation_precision r) \<and> precision (citation_precision r) \<le> 1"
proof -
  let ?pairs = "re_findall CITATION_PATTERN (answer r)"
  let ?ids = "set (map chunk_id (retrieved_chunks r))"
  let ?loop = "classify_loop (map chunk_id (retrieved_chunks r)) (extract_citations (answer r)) [] []"
  note f = citation_precision_fields[of r]
  note c = classify_extracted[of "map chunk_id (retrieved_chunks r)" "answer r"]
  have ex: "extract_citations (answer r) = map render_citation ?pairs"
    by (simp add: extract_citations_def)
  have l: "length (extract_citations (answer r)) = length ?pairs"
    unfolding ex by simp
  have c1: "fst ?loop = map render_citation
           (filter (\<lambda>m. m ! 1 \<in> chunk_id ` set (retrieved_chunks r)) ?pairs)"
    unfolding c by simp
  have c2: "snd ?loop = map render_citation
           (filter (\<lambda>m. m ! 1 \<notin> chunk_id ` set (retrieved_chunks r)) ?pairs)"
    unfolding c by simp
  have t: "total_citations (citation_precision r) = length (extract_citations (answer r))"
    unfolding l by (rule f(1))
  have v: "valid_citations (citation_precision r) = length (fst ?loop)"
    unfolding c1 using f(2) by simp
  have i: "invalid (citation_precision r) = snd ?loop"
    unfolding c2 using f(3) by simp
  have part: "length (filter (\<lambda>m. m ! 1 \<in> ?ids) ?pairs)
            + length (filter (\<lambda>m. m ! 1 \<notin> ?ids) ?pairs) = length ?pairs"
    using sum_length_filter_compl[of "\<lambda>m. m ! 1 \<in> ?ids" ?pairs] by simp
  have 1: "total_citations (citation_precision r)
     = valid_citations (citation_precision r) + length (invalid (citation_precision r))"
    unfolding f(1) f(2) f(3) using part by simp
  have p: "precision (citation_precision r)
       = (if total_citations (citation_precision r) = 0 then 0
          else of_nat (valid_citations (citation_precision r))
               / of_nat (total_citations (citation_precision r)))"
    unfolding f(1) f(2) using f(4) by simp
  have le: "length (filter (\<lambda>m. m ! 1 \<in> ?ids) ?pairs) \<le> length ?pairs" by simp
  have 2: "0 \<le> precision (citation_precision r)"
    unfolding f(4) by simp
  have 3: "precision (citation_precision r) \<le> 1"
  proof (cases "?pairs = []")
    case True
    then show ?thesis unfolding f(4) by simp
  next
    case False
    then have "0 < length ?pairs" by simp
    then show ?thesis unfolding f(4) using le False
      by (simp add: divide_le_eq_1 del: length_filter_le)
  qed
  have 4: "list_all (\<lambda>cit. re_search PARSE_PATTERN cit \<noteq> None) (extract_citations (answer r))"
    unfolding extract_citations_def list_all_iff
  proof
    fix cit assume "cit \<in> set (map render_citation ?pairs)"
    then obtain m where m: "m \<in> set ?pairs" and cit: "cit = render_citation m" by auto
    from findall_citation_groups[OF m] obtain a b where "m = [a, b]" "is_token a" "is_token b"
      by blast
    then show "re_search PARSE_PATTERN cit \<noteq> None"
      using search_rendered[of a b] cit by simp
  qed
  from t v i ex c1 c2 4 1 p 2 3 show ?thesis by blast
qed

section \<open>Properties of failure mining\<close>

text \<open>
  A guarded loop appends entries of its own type, one for each query id of its list that
  \<open>failures\<close> does not hold yet, and leaves \<open>failures\<close> as it is when it holds them
  all.
\<close>

lemma append_unclassified_spec:
  "\<exists>ns. append_unclassified t qids fs = fs @ ns
        \<and> (\<forall>f\<in>set ns. f_type f = t)
        \<and> distinct (map f_query_id ns)
        \<and> set (map f_query_id ns) = set qids - set (map f_query_id fs)"
proof (induction qids arbitrary: fs)
  case Nil
  then show ?case by simp
next
  case (Cons qid rest)
  show ?case
  proof (cases "qid \<in> set (map f_query_id fs)")
    case True
    from Cons.IH[of fs] obtain ns where ns: "append_unclassified t rest fs = fs @ ns"
      "\<forall>f\<in>set ns. f_type f = t" "distinct (map f_query_id ns)"
      "set (map f_query_id ns) = set rest - set (map f_query_id fs)"
      by blast
    have "set (map f_query_id ns) = set (qid # rest) - set (map f_query_id fs)"
      using ns(4) True by auto
    with ns True show ?thesis by auto
  next
    case False
    let ?new = "\<lparr>f_type = t, f_query_id = qid\<rparr>"
    from Cons.IH[of "fs @ [?new]"] obtain ns where
      ns: "append_unclassified t rest (fs @ [?new]) = (fs @ [?new]) @ ns"
      "\<forall>f\<in>set ns. f_type f = t" "distinct (map f_query_id ns)"
      "set (map f_query_id ns) = set rest - set (map f_query_id (fs @ [?new]))"
      by blast
    have 1: "append_unclassified t (qid # rest) fs = fs @ (?new # ns)"
      using False ns(1) by simp
    have 2: "\<forall>f\<in>set (?new # ns). f_type f = t" using ns(2) by simp
    have "qid \<notin> set (map f_query_id ns)" using ns(4) by simp
    then have 3: "distinct (map f_query_id (?new # ns))" using ns(3) by simp
    have 4: "set (map f_query_id (?new # ns)) = set (qid # rest) - set (map f_query_id fs)"
      using ns(4) False by auto
    from 1 2 3 4 show ?thesis by blast
  qed
qed

lemma append_unclassified_skip:
  "set qids \<subseteq> set (map f_query_id fs) \<Longrightarrow> append_unclassified t qids fs = fs"
  by (induction qids arbitrary: fs) auto

lemma unique_key_count:
  "distinct (map k xs) \<Longrightarrow> x \<in> set xs \<Longrightarrow> length (filter (\<lambda>y. k y = k x) xs) = 1"
proof (induction xs)
  case Nil
  then show ?case by simp
next
  case (Cons a xs)
  show ?case
  proof (cases "k a = k x")
    case True
    then have "\<forall>y\<in>set xs. k y \<noteq> k x" using Cons.prems(1) by (auto simp: image_iff)
    then have "filter (\<lambda>y. k y = k x) xs = []" by (simp add: filter_empty_conv)
    with True show ?thesis by simp
  next
    case False
    then have "x \<in> set xs" using Cons.prems(2) by auto
    with Cons False show ?thesis by simp
  qed
qed

text \<open>
  The list of candidates: the entries of rules 1 and 2, then those of rules 3, 4 and 5,
  whose query ids are distinct and are not among the ids of rules 1 and 2.
\<close>

lemma failure_candidates_structure:
  fixes scores results
  defines "f2 \<equiv> rule1_entries scores @ rule2_entries scores results"
  defines "G \<equiv> set (map row_query_id (filter low_groundedness scores))"
  defines "R \<equiv> set (map row_query_id (filter low_relevance scores))"
  defines "I \<equiv> set (map query_id (filter has_invalid results))"
  shows "\<exists>n3 n4 n5. failure_candidates scores results = f2 @ n3 @ n4 @ n5
      \<and> (\<forall>f\<in>set n3. f_type f = LowGroundedness)
      \<and> (\<forall>f\<in>set n4. f_type f = LowAnswerRelevance)
      \<and> (\<forall>f\<in>set n5. f_type f = InvalidCitations)
      \<and> distinct (map f_query_id (n3 @ n4 @ n5))
      \<and> set (map f_query_id (n3 @ n4 @ n5)) \<inter> set (map f_query_id f2) = {}
      \<and> set (map f_query_id n3) = G - set (map f_query_id f2)
      \<and> set (map f_query_id n4) = R - G - set (map f_query_id f2)
      \<and> set (map f_query_id n5) = I - R - G - set (map f_query_id f2)"
proof -
  obtain n3 where n3: "append_unclassified LowGroundedness
        (map row_query_id (filter low_groundedness scores)) f2 = f2 @ n3"
      "\<forall>f\<in>set n3. f_type f = LowGroundedness" "distinct (map f_query_id n3)"
      "set (map f_query_id n3) = G - set (map f_query_id f2)"
    unfolding G_def using append_unclassified_spec by blast
  obtain n4 where n4: "append_unclassified LowAnswerRelevance
        (map row_query_id (filter low_relevance scores)) (f2 @ n3) = (f2 @ n3) @ n4"
      "\<forall>f\<in>set n4. f_type f = LowAnswerRelevance" "distinct (map f_query_id n4)"
      "set (map f_query_id n4) = R - set (map f_query_id (f2 @ n3))"
    unfolding R_def using append_unclassified_spec by blast
  obtain n5 where n5: "append_unclassified InvalidCitations
        (map query_id (filter has_invalid results)) ((f2 @ n3) @ n4) = ((f2 @ n3) @ n4) @ n5"
      "\<forall>f\<in>set n5. f_type f = InvalidCitations" "distinct (map f_query_id n5)"
      "set (map f_query_id n5) = I - set (map f_query_id ((f2 @ n3) @ n4))"
    unfolding I_def using append_unclassified_spec by blast
  have run: "failure_candidates scores results = f2 @ n3 @ n4 @ n5"
    unfolding failure_candidates_def Let_def f2_def[symmetric] n3(1) n4(1) n5(1) by simp
  have s3: "set (map f_query_id n3) = G - set (map f_query_id f2)" by (rule n3(4))
  have s4: "set (map f_query_id n4) = R - G - set (map f_query_id f2)"
    using n4(4) s3 by auto
  have s5: "set (map f_query_id n5) = I - R - G - set (map f_query_id f2)"
    using n5(4) s3 s4 by auto
  have d: "distinct (map f_query_id (n3 @ n4 @ n5))"
    using n3(3) n4(3) n5(3) s3 s4 s5 by auto
  have dj: "set (map f_query_id (n3 @ n4 @ n5)) \<inter> set (map f_query_id f2) = {}"
    using s3 s4 s5 by auto
  from run n3(2) n4(2) n5(2) d dj s3 s4 s5 show ?thesis by blast
qed


lemma rule12_types:
  "\<forall>f\<in>set (rule1_entries scores @ rule2_entries scores results).
     f_type f = LowCitationPrecision \<or> f_type f = MissingCitations"
  by (auto simp: rule1_entries_def rule2_entries_def)

lemma typed_entry_mem:
  assumes "\<forall>f\<in>set ns. f_type f = t"
  shows "\<lparr>f_type = t, f_query_id = q\<rparr> \<in> set ns \<longleftrightarrow> q \<in> set (map f_query_id ns)"
proof
  assume "\<lparr>f_type = t, f_query_id = q\<rparr> \<in> set ns"
  then have "f_query_id \<lparr>f_type = t, f_query_id = q\<rparr> \<in> f_query_id ` set ns" by (rule imageI)
  then show "q \<in> set (map f_query_id ns)" by simp
next
  assume "q \<in> set (map f_query_id ns)"
  then obtain f where f: "f \<in> set ns" "f_query_id f = q" by auto
  then have ft: "f_type f = t" using assms by blast
  have "f = \<lparr>f_type = f_type f, f_query_id = f_query_id f\<rparr>" by (cases f) simp
  then have "f = \<lparr>f_type = t, f_query_id = q\<rparr>" unfolding ft f(2) .
  with f show "\<lparr>f_type = t, f_query_id = q\<rparr> \<in> set ns" by simp
qed

text \<open>
  The loops of rules 3, 4 and 5 are first-match-wins: their entries follow those of rules 1
  and 2, a query classified by one of them has exactly one entry in the whole list, and
  each of them classifies a query exactly when its condition holds and no earlier rule has
  classified it.
\<close>

lemma guarded_rules_first_match:
  fixes scores :: "score_row list" and results :: "query_result list"
  assumes "F = failure_candidates scores results"
    and "f2 = rule1_entries scores @ rule2_entries scores results"
  shows "(\<exists>ns. F = f2 @ ns
            \<and> (\<forall>f\<in>set ns. f_type f \<in> {LowGroundedness, LowAnswerRelevance, InvalidCitations}))
    \<and> (\<forall>f\<in>set F. f_type f \<in> {LowGroundedness, LowAnswerRelevance, InvalidCitations} \<longrightarrow>
          length (filter (\<lambda>g. f_query_id g = f_query_id f) F) = 1)
    \<and> (\<forall>q. \<lparr>f_type = LowGroundedness, f_query_id = q\<rparr> \<in> set F \<longleftrightarrow>
          q \<in> row_query_id ` set (filter low_groundedness scores)
          \<and> q \<notin> f_query_id ` set f2)
    \<and> (\<forall>q. \<lparr>f_type = LowAnswerRelevance, f_query_id = q\<rparr> \<in> set F \<longleftrightarrow>
          q \<in> row_query_id ` set (filter low_relevance scores)
          \<and> q \<notin> row_query_id ` set (filter low_groundedness scores)
          \<and> q \<notin> f_query_id ` set f2)
    \<and> (\<forall>q. \<lparr>f_type = InvalidCitations, f_query_id = q\<rparr> \<in> set F \<longleftrightarrow>
          q \<in> query_id ` set (filter has_invalid results)
          \<and> q \<notin> row_query_id ` set (filter low_relevance scores)
          \<and> q \<notin> row_query_id ` set (filter low_groundedness scores)
          \<and> q \<notin> f_query_id ` set f2)"
proof -
  from failure_candidates_structure[of scores results] obtain n3 n4 n5 where
    run: "F = f2 @ n3 @ n4 @ n5"
    and t3: "\<forall>f\<in>set n3. f_type f = LowGroundedness"
    and t4: "\<forall>f\<in>set n4. f_type f = LowAnswerRelevance"
    and t5: "\<forall>f\<in>set n5. f_type f = InvalidCitations"
    and d: "distinct (map f_query_id (n3 @ n4 @ n5))"
    and dj: "set (map f_query_id (n3 @ n4 @ n5)) \<inter> set (map f_query_id f2) = {}"
    and s3: "set (map f_query_id n3)
        = set (map row_query_id (filter low_groundedness scores)) - set (map f_query_id f2)"
    and s4: "set (map f_query_id n4)
        = set (map row_query_id (filter low_relevance scores))
          - set (map row_query_id (filter low_groundedness scores)) - set (map f_query_id f2)"
    and s5: "set (map f_query_id n5)
        = set (map query_id (filter has_invalid results))
          - set (map row_query_id (filter low_relevance scores))
          - set (map row_query_id (filter low_groundedness scores)) - set (map f_query_id f2)"
    unfolding assms by blast
  have t2: "\<forall>f\<in>set f2. f_type f = LowCitationPrecision \<or> f_type f = MissingCitations"
    unfolding assms(2) by (rule rule12_types)
  let ?ns = "n3 @ n4 @ n5"
  have tn: "\<forall>f\<in>set ?ns. f_type f \<in> {LowGroundedness, LowAnswerRelevance, InvalidCitations}"
    using t3 t4 t5 by auto
  have 1: "\<exists>ns. F = f2 @ ns
            \<and> (\<forall>f\<in>set ns. f_type f \<in> {LowGroundedness, LowAnswerRelevance, InvalidCitations})"
    using run tn by blast
  have 2: "\<forall>f\<in>set F. f_type f \<in> {LowGroundedness, LowAnswerRelevance, InvalidCitations} \<longrightarrow>
          length (filter (\<lambda>g. f_query_id g = f_query_id f) F) = 1"
  proof (intro ballI impI)
    fix f assume f: "f \<in> set F"
      and g: "f_type f \<in> {LowGroundedness, LowAnswerRelevance, InvalidCitations}"
    have "f \<notin> set f2" using t2 g by auto
    then have fn: "f \<in> set ?ns" using f run by auto
    then have "f_query_id f \<in> set (map f_query_id ?ns)" by (simp only: set_map) (rule imageI)
    then have "f_query_id f \<notin> set (map f_query_id f2)" using dj by blast
    then have "\<forall>g\<in>set f2. f_query_id g \<noteq> f_query_id f" by (metis imageI set_map)
    then have z: "filter (\<lambda>g. f_query_id g = f_query_id f) f2 = []"
      by (simp add: filter_empty_conv)
    have "length (filter (\<lambda>g. f_query_id g = f_query_id f) ?ns) = 1"
      using d fn by (rule unique_key_count)
    then show "length (filter (\<lambda>g. f_query_id g = f_query_id f) F) = 1"
      unfolding run using z by simp
  qed
  have 3: "\<forall>q. \<lparr>f_type = LowGroundedness, f_query_id = q\<rparr> \<in> set F \<longleftrightarrow>
          q \<in> row_query_id ` set (filter low_groundedness scores)
          \<and> q \<notin> f_query_id ` set f2"
  proof
    fix q
    have "\<lparr>f_type = LowGroundedness, f_query_id = q\<rparr> \<in> set F
        \<longleftrightarrow> \<lparr>f_type = LowGroundedness, f_query_id = q\<rparr> \<in> set n3"
      unfolding run using t2 t4 t5 by auto
    also have "\<dots> \<longleftrightarrow> q \<in> set (map f_query_id n3)" by (rule typed_entry_mem[OF t3])
    finally show "\<lparr>f_type = LowGroundedness, f_query_id = q\<rparr> \<in> set F \<longleftrightarrow>
          q \<in> row_query_id ` set (filter low_groundedness scores)
          \<and> q \<notin> f_query_id ` set f2"
      unfolding s3 by simp
  qed
  have 4: "\<forall>q. \<lparr>f_type = LowAnswerRelevance, f_query_id = q\<rparr> \<in> set F \<longleftrightarrow>
          q \<in> row_query_id ` set (filter low_relevance scores)
          \<and> q \<notin> row_query_id ` set (filter low_groundedness scores)
          \<and> q \<notin> f_query_id ` set f2"
  proof
    fix q
    have "\<lparr>f_type = LowAnswerRelevance, f_query_id = q\<rparr> \<in> set F
        \<longleftrightarrow> \<lparr>f_type = LowAnswerRelevance, f_query_id = q\<rparr> \<in> set n4"
      unfolding run using t2 t3 t5 by auto
    also have "\<dots> \<longleftrightarrow> q \<in> set (map f_query_id n4)" by (rule typed_entry_mem[OF t4])
    finally show "\<lparr>f_type = LowAnswerRelevance, f_query_id = q\<rparr> \<in> set F \<longleftrightarrow>
          q \<in> row_query_id ` set (filter low_relevance scores)
          \<and> q \<notin> row_query_id ` set (filter low_groundedness scores)
          \<and> q \<notin> f_query_id ` set f2"
      unfolding s4 by simp
  qed
  have 5: "\<forall>q. \<lparr>f_type = InvalidCitations, f_query_id = q\<rparr> \<in> set F \<longleftrightarrow>
          q \<in> query_id ` set (filter has_invalid results)
          \<and> q \<notin> row_query_id ` set (filter low_relevance scores)
          \<and> q \<notin> row_query_id ` set (filter low_groundedness scores)
          \<and> q \<notin> f_query_id ` set f2"
  proof
    fix q
    have "\<lparr>f_type = InvalidCitations, f_query_id = q\<rparr> \<in> set F
        \<longleftrightarrow> \<lparr>f_type = InvalidCitations, f_query_id = q\<rparr> \<in> set n5"
      unfolding run using t2 t3 t4 by auto
    also have "\<dots> \<longleftrightarrow> q \<in> set (map f_query_id n5)" by (rule typed_entry_mem[OF t5])
    finally show "\<lparr>f_type = InvalidCitations, f_query_id = q\<rparr> \<in> set F \<longleftrightarrow>
          q \<in> query_id ` set (filter has_invalid results)
          \<and> q \<notin> row_query_id ` set (filter low_relevance scores)
          \<and> q \<notin> row_query_id ` set (filter low_groundedness scores)
          \<and> q \<notin> f_query_id ` set f2"
      unfolding s5 by simp
  qed
  from 1 2 3 4 5 show ?thesis by blast
qed

text \<open>
  Claim C2 at its failing input. A result with no citations and 5 retrieved chunks has a row
  with precision 0 and no citations: the loop of rule 1 lists it as Low Citation Precision,
  and the loop of rule 2, which has no test for an earlier entry as the loops of rules 3, 4
  and 5 have, lists it again as Missing Citations. The claim says that every query gets at
  most one type. A result with no citations and no retrieved chunks is listed as Low
  Citation Precision, the type of rule 1, where the claim says that it is classified in
  neither the type of rule 1 nor that of rule 2.
\<close>

theorem find_failure_cases_double_listing:
  "failure_candidates [scored_row (bare_result ''q1'' 5) (Some 4) (Some 4)] [bare_result ''q1'' 5]
     = [\<lparr>f_type = LowCitationPrecision, f_query_id = ''q1''\<rparr>,
        \<lparr>f_type = MissingCitations, f_query_id = ''q1''\<rparr>]
   \<and> failure_candidates [scored_row (bare_result ''q0'' 0) (Some 4) (Some 4)] [bare_result ''q0'' 0]
     = [\<lparr>f_type = LowCitationPrecision, f_query_id = ''q0''\<rparr>]
   \<and> extract_citations (answer (bare_result ''q0'' 0)) = []
   \<and> retrieved_chunks (bare_result ''q0'' 0) = []"
  by code_simp

end
